theory Spec2Isabelle
  imports Complex_Main "HOL-Library.Word"
begin

unbundle bit_operations_syntax

section \<open>Strings and buffers of the runtime\<close>

text \<open>
  A Buffer is a list of bytes; a JavaScript string is a list of UTF-16 code units.
  Header names, environment variable names and fixed texts of the program are written as
  HOL strings and turned into code units by \<open>lit\<close>.
\<close>

type_synonym byte = "8 word"
type_synonym code_unit = "16 word"
type_synonym jsstring = "code_unit list"

definition lit :: "string \<Rightarrow> jsstring" where
  "lit s = map of_char s"

subsection \<open>UTF-8 decoding: \<open>buf.toString("utf8")\<close>\<close>

text \<open>
  The decoder of the runtime follows the WHATWG state machine: \<open>needed\<close> continuation
  bytes are still expected, \<open>cp\<close> holds the bits read so far, and the next byte has to lie
  in \<open>[lo, hi]\<close>. An ill-formed sequence yields U+FFFD and the offending byte is read again
  in the initial state; input that ends inside a sequence yields one U+FFFD.
\<close>

function utf8_dec :: "nat \<Rightarrow> nat \<Rightarrow> byte \<Rightarrow> byte \<Rightarrow> byte list \<Rightarrow> nat list" where
  "utf8_dec needed cp lo hi [] = (if needed = 0 then [] else [0xFFFD])"
| "utf8_dec needed cp lo hi (b # bs) =
     (if needed = 0 then
        (if b \<le> 0x7F then unat b # utf8_dec 0 0 0x80 0xBF bs
         else if 0xC2 \<le> b \<and> b \<le> 0xDF then utf8_dec 1 (unat b mod 32) 0x80 0xBF bs
         else if 0xE0 \<le> b \<and> b \<le> 0xEF then
           utf8_dec 2 (unat b mod 16) (if b = 0xE0 then 0xA0 else 0x80)
             (if b = 0xED then 0x9F else 0xBF) bs
         else if 0xF0 \<le> b \<and> b \<le> 0xF4 then
           utf8_dec 3 (unat b mod 8) (if b = 0xF0 then 0x90 else 0x80)
             (if b = 0xF4 then 0x8F else 0xBF) bs
         else 0xFFFD # utf8_dec 0 0 0x80 0xBF bs)
      else if \<not> (lo \<le> b \<and> b \<le> hi) then 0xFFFD # utf8_dec 0 0 0x80 0xBF (b # bs)
      else if needed = 1 then (cp * 64 + unat b mod 64) # utf8_dec 0 0 0x80 0xBF bs
      else utf8_dec (needed - 1) (cp * 64 + unat b mod 64) 0x80 0xBF bs)"
  by pat_completeness auto
termination
  by (relation "measure (\<lambda>(needed, cp, lo, hi, bs). 2 * length bs + (if needed = 0 then 0 else 1))")
     auto

definition utf8_decode :: "byte list \<Rightarrow> nat list" where
  "utf8_decode bs = utf8_dec 0 0 0x80 0xBF bs"

subsection \<open>UTF-8 encoding of a code point\<close>

definition utf8_encode1 :: "nat \<Rightarrow> byte list" where
  "utf8_encode1 cp =
     (if cp < 0x80 then [of_nat cp]
      else if cp < 0x800 then [of_nat (0xC0 + cp div 64), of_nat (0x80 + cp mod 64)]
      else if cp < 0x10000 then
        [of_nat (0xE0 + cp div 4096), of_nat (0x80 + cp div 64 mod 64), of_nat (0x80 + cp mod 64)]
      else
        [of_nat (0xF0 + cp div 262144), of_nat (0x80 + cp div 4096 mod 64),
         of_nat (0x80 + cp div 64 mod 64), of_nat (0x80 + cp mod 64)])"

definition utf8_encode :: "nat list \<Rightarrow> byte list" where
  "utf8_encode cps = concat (map utf8_encode1 cps)"

subsection \<open>UTF-16: the code units of a string\<close>

definition is_high_surrogate :: "code_unit \<Rightarrow> bool" where
  "is_high_surrogate u = (0xD800 \<le> u \<and> u \<le> 0xDBFF)"

definition is_low_surrogate :: "code_unit \<Rightarrow> bool" where
  "is_low_surrogate u = (0xDC00 \<le> u \<and> u \<le> 0xDFFF)"

definition lone_unit :: "code_unit \<Rightarrow> nat" where
  \<comment> \<open>a unit outside a pair: itself, or U+FFFD for an unpaired surrogate\<close>
  "lone_unit u = (if is_high_surrogate u \<or> is_low_surrogate u then 0xFFFD else unat u)"

fun utf16_decode :: "jsstring \<Rightarrow> nat list" where
  "utf16_decode [] = []"
| "utf16_decode [u] = [lone_unit u]"
| "utf16_decode (u # v # r) =
     (if is_high_surrogate u \<and> is_low_surrogate v
      then (0x10000 + (unat u - 0xD800) * 1024 + (unat v - 0xDC00)) # utf16_decode r
      else lone_unit u # utf16_decode (v # r))"

definition utf16_encode1 :: "nat \<Rightarrow> jsstring" where
  "utf16_encode1 cp =
     (if cp < 0x10000 then [of_nat cp]
      else [of_nat (0xD800 + (cp - 0x10000) div 1024), of_nat (0xDC00 + (cp - 0x10000) mod 1024)])"

definition utf16_encode :: "nat list \<Rightarrow> jsstring" where
  "utf16_encode cps = concat (map utf16_encode1 cps)"

definition toString_utf8 :: "byte list \<Rightarrow> jsstring" where
  \<comment> \<open>\<open>buf.toString("utf8")\<close>\<close>
  "toString_utf8 buf = utf16_encode (utf8_decode buf)"

definition Buffer_from :: "jsstring \<Rightarrow> byte list" where
  \<comment> \<open>\<open>Buffer.from(s)\<close> and the bytes \<open>hmac.update(s, "utf8")\<close> reads\<close>
  "Buffer_from s = utf8_encode (utf16_decode s)"


section \<open>Signature verification\<close>

text \<open>
  The keyed digest is the runtime's (\<open>crypto.createHmac\<close>): it is a parameter of the model,
  a function from the algorithm, the key bytes and the message bytes to the digest bytes.
  \<open>digest("hex")\<close> writes every byte as two lowercase hexadecimal digits.
\<close>

datatype hash_alg = SHA256 | SHA512

type_synonym hmac_fn = "hash_alg \<Rightarrow> byte list \<Rightarrow> byte list \<Rightarrow> byte list"

datatype js_error = RangeError | TypeError

definition hex_digit :: "nat \<Rightarrow> code_unit" where
  "hex_digit n = (if n < 10 then of_nat (48 + n) else of_nat (87 + n))"

definition hex :: "byte list \<Rightarrow> jsstring" where
  "hex bs = concat (map (\<lambda>b. [hex_digit (unat b div 16), hex_digit (unat b mod 16)]) bs)"

definition hmac_hex :: "hmac_fn \<Rightarrow> hash_alg \<Rightarrow> jsstring \<Rightarrow> jsstring \<Rightarrow> jsstring" where
  \<comment> \<open>\<open>crypto.createHmac(alg, secret).update(raw, "utf8").digest("hex")\<close>\<close>
  "hmac_hex hm alg secret raw = hex (hm alg (Buffer_from secret) (Buffer_from raw))"

definition timingSafeEqual :: "byte list \<Rightarrow> byte list \<Rightarrow> js_error + bool" where
  \<comment> \<open>\<open>crypto.timingSafeEqual\<close> throws a RangeError on buffers of different byte length\<close>
  "timingSafeEqual a b = (if length a \<noteq> length b then Inl RangeError else Inr (a = b))"

text \<open>
  \<open>raw\<close>, \<open>header\<close> and \<open>secret\<close> are each a string or undefined (\<open>None\<close>); \<open>!x\<close> holds for
  undefined and for the empty string.
\<close>

fun verifyLemonSignature ::
  "hmac_fn \<Rightarrow> jsstring option \<Rightarrow> jsstring option \<Rightarrow> jsstring option \<Rightarrow> js_error + bool" where
  "verifyLemonSignature hm (Some raw) (Some header) (Some secret) =
     (if raw = [] \<or> header = [] \<or> secret = [] then Inr False
      else let digest = hmac_hex hm SHA256 secret raw
           in timingSafeEqual (Buffer_from header) (Buffer_from digest))"
| "verifyLemonSignature hm _ _ _ = Inr False"

fun verifyNowPaymentsSignature ::
  "hmac_fn \<Rightarrow> jsstring option \<Rightarrow> jsstring option \<Rightarrow> jsstring option \<Rightarrow> js_error + bool" where
  "verifyNowPaymentsSignature hm (Some raw) (Some header) (Some secret) =
     (if raw = [] \<or> header = [] \<or> secret = [] then Inr False
      else let digest = hmac_hex hm SHA512 secret raw
           in timingSafeEqual (Buffer_from header) (Buffer_from digest))"
| "verifyNowPaymentsSignature hm _ _ _ = Inr False"

section \<open>Requests and raw body capture\<close>

record request =
  headers :: "string \<Rightarrow> jsstring option"
  rawBody :: "jsstring option"

definition rawBodySaver :: "request \<Rightarrow> byte list option \<Rightarrow> request" where
  \<comment> \<open>\<open>if (buf && buf.length) req.rawBody = buf.toString("utf8")\<close>\<close>
  "rawBodySaver req buf =
     (case buf of
        None \<Rightarrow> req
      | Some b \<Rightarrow> if length b \<noteq> 0 then req\<lparr>rawBody := Some (toString_utf8 b)\<rparr> else req)"

definition capture :: "(string \<Rightarrow> jsstring option) \<Rightarrow> byte list option \<Rightarrow> request" where
  \<comment> \<open>the request a webhook handler sees: the body parser hands the body it read (if it read
      one) to \<open>rawBodySaver\<close>; \<open>rawBody\<close> is undefined before\<close>
  "capture hs buf = rawBodySaver \<lparr>headers = hs, rawBody = None\<rparr> buf"

section \<open>JavaScript values\<close>

text \<open>
  A number is an IEEE double: not-a-number, an infinity, negative zero, or the rational it
  denotes (\<open>Fin 0\<close> is positive zero).
\<close>

datatype jsnum = NaN | PosInf | NegInf | NegZero | Fin rat

datatype jsval =
    Undefined
  | Null
  | Bool bool
  | Num jsnum
  | Str jsstring
  | Arr "jsval list"
  | Obj "(jsstring \<times> jsval) list"

text \<open>
  Property read \<open>v?.k\<close> (and \<open>v.k\<close> on a value known not to be null or undefined). An object
  built by \<open>JSON.parse\<close> is the list of its own properties. The handlers read only names
  that no prototype defines and that are no array index, so on every other value the
  read is undefined.
\<close>

fun get :: "jsval \<Rightarrow> string \<Rightarrow> jsval" where
  "get (Obj kvs) k = (case map_of kvs (lit k) of Some v \<Rightarrow> v | None \<Rightarrow> Undefined)"
| "get _ k = Undefined"

fun truthy :: "jsval \<Rightarrow> bool" where
  "truthy Undefined = False"
| "truthy Null = False"
| "truthy (Bool b) = b"
| "truthy (Num n) = (n \<noteq> NaN \<and> n \<noteq> NegZero \<and> n \<noteq> Fin 0)"
| "truthy (Str s) = (s \<noteq> [])"
| "truthy (Arr _) = True"
| "truthy (Obj _) = True"

definition or_else :: "jsval \<Rightarrow> jsval \<Rightarrow> jsval" where
  \<comment> \<open>\<open>a || b\<close>\<close>
  "or_else a b = (if truthy a then a else b)"

definition nullish :: "jsval \<Rightarrow> jsval \<Rightarrow> jsval" where
  \<comment> \<open>\<open>a ?? b\<close>\<close>
  "nullish a b = (if a = Undefined \<or> a = Null then b else a)"

subsection \<open>Division of doubles\<close>

fun bitlen :: "nat \<Rightarrow> nat" where
  "bitlen n = (if n = 0 then 0 else Suc (bitlen (n div 2)))"

declare bitlen.simps [simp del]

definition pow2 :: "int \<Rightarrow> rat" where
  "pow2 e = (if 0 \<le> e then 2 ^ nat e else 1 / 2 ^ nat (- e))"

definition ilog2 :: "rat \<Rightarrow> int" where
  \<comment> \<open>for \<open>x > 0\<close>: the \<open>e\<close> with \<open>2^e \<le> x < 2^(e+1)\<close>\<close>
  "ilog2 x =
     (let (p, q) = quotient_of x;
          d = int (bitlen (nat p)) - int (bitlen (nat q))
      in if pow2 d \<le> x then d else d - 1)"

definition round_half_even :: "rat \<Rightarrow> int" where
  "round_half_even x =
     (let f = \<lfloor>x\<rfloor>; r = x - of_int f
      in if r < 1 / 2 then f else if 1 / 2 < r then f + 1 else if even f then f else f + 1)"

definition round_double_pos :: "rat \<Rightarrow> rat option" where
  \<comment> \<open>for \<open>x > 0\<close>: the nearest double (53 significant bits, least exponent \<open>-1074\<close>, ties to
      even); \<open>None\<close> when it overflows\<close>
  "round_double_pos x =
     (let e = max (ilog2 x - 52) (- 1074);
          y = of_int (round_half_even (x / pow2 e)) * pow2 e
      in if pow2 1024 \<le> y then None else Some y)"

definition to_double :: "rat \<Rightarrow> jsnum" where
  "to_double x =
     (if x = 0 then Fin 0
      else if 0 < x then (case round_double_pos x of None \<Rightarrow> PosInf | Some y \<Rightarrow> Fin y)
      else (case round_double_pos (- x) of
              None \<Rightarrow> NegInf
            | Some y \<Rightarrow> if y = 0 then NegZero else Fin (- y)))"

fun div100 :: "jsnum \<Rightarrow> jsnum" where
  \<comment> \<open>\<open>n / 100\<close>\<close>
  "div100 NaN = NaN"
| "div100 PosInf = PosInf"
| "div100 NegInf = NegInf"
| "div100 NegZero = NegZero"
| "div100 (Fin x) = to_double (x / 100)"

text \<open>
  \<open>ToNumber\<close>. The conversion of a string, an array or an object is the runtime's
  (\<open>coerce\<close>, a parameter): it parses the string, or asks the object for a primitive, and
  throws a TypeError (\<open>None\<close>) when the object has none.
\<close>

fun ToNumber :: "(jsval \<Rightarrow> jsnum option) \<Rightarrow> jsval \<Rightarrow> js_error + jsnum" where
  "ToNumber coerce Undefined = Inr NaN"
| "ToNumber coerce Null = Inr (Fin 0)"
| "ToNumber coerce (Bool b) = Inr (Fin (if b then 1 else 0))"
| "ToNumber coerce (Num n) = Inr n"
| "ToNumber coerce v = (case coerce v of None \<Rightarrow> Inl TypeError | Some n \<Rightarrow> Inr n)"


section \<open>The webhook handlers\<close>

record order =
  buyerEmail :: jsval
  websiteType :: jsval
  amount :: jsval
  currency :: jsval
  raw :: jsval

record env =
  LEMONSQUEEZY_SIGNING_SECRET :: "jsstring option"
  NOWPAYMENTS_IPN_SECRET :: "jsstring option"

record response =
  status :: nat
  body :: string

text \<open>
  What a handler does with a request: the response it sends and the calls of
  \<open>notifyOrder\<close> it makes, in order.
\<close>

type_synonym outcome = "response \<times> order list"

text \<open>
  The rest of the runtime the handlers call: the keyed digest, \<open>JSON.parse\<close> (\<open>None\<close> when
  it throws a SyntaxError), the conversion of strings and objects to numbers, and
  \<open>notifyOrder\<close>, of which the handlers only see whether it returned (\<open>True\<close>) or threw.
\<close>

record runtime =
  hmac :: hmac_fn
  JSON_parse :: "jsstring \<Rightarrow> jsval option"
  coerce :: "jsval \<Rightarrow> jsnum option"
  notifyOrder :: "order \<Rightarrow> bool"

subsection \<open>LemonSqueezy\<close>

definition lemon_event_type :: "jsval \<Rightarrow> jsval" where
  \<comment> \<open>\<open>evt?.meta?.event_name || evt?.event\<close>\<close>
  "lemon_event_type evt = or_else (get (get evt ''meta'') ''event_name'') (get evt ''event'')"

definition lemon_success :: "jsval \<Rightarrow> bool" where
  "lemon_success evt =
     (let type = lemon_event_type evt
      in type = Str (lit ''order_created'') \<or> type = Str (lit ''subscription_payment_success''))"

definition lemon_order :: "(jsval \<Rightarrow> jsnum option) \<Rightarrow> jsval \<Rightarrow> js_error + order" where
  \<comment> \<open>the extraction of the LemonSqueezy handler, from \<open>const data\<close> to the argument of
      \<open>notifyOrder\<close>\<close>
  "lemon_order co evt =
     (let data = or_else (get evt ''data'') (Obj []);
          attributes = or_else (get data ''attributes'') (Obj []);
          buyerEmail = or_else (or_else (get attributes ''user_email'')
                                        (get attributes ''customer_email'')) Null;
          currency = or_else (get attributes ''currency'') (Str (lit ''USD''))
      in case ToNumber co (nullish (get attributes ''total'') (Num (Fin 0))) of
           Inl e \<Rightarrow> Inl e
         | Inr n \<Rightarrow>
             let amount = div100 n;
                 websiteType =
                   or_else (or_else (get (get attributes ''custom'') ''websiteType'')
                                    (get (get (get evt ''meta'') ''custom_data'') ''websiteType''))
                           (Str (lit ''unknown''))
             in Inr \<lparr>buyerEmail = buyerEmail, websiteType = websiteType, amount = Num amount,
                     currency = currency, raw = evt\<rparr>)"

definition server_error :: outcome where
  "server_error = (\<lparr>status = 500, body = ''server error''\<rparr>, [])"

definition send_order :: "runtime \<Rightarrow> order \<Rightarrow> outcome" where
  \<comment> \<open>\<open>await notifyOrder({...})\<close> and then \<open>res.status(200).send("ok")\<close>, or the catch block\<close>
  "send_order rt ord =
     (if notifyOrder rt ord then (\<lparr>status = 200, body = ''ok''\<rparr>, [ord])
      else (\<lparr>status = 500, body = ''server error''\<rparr>, [ord]))"

definition body_or_empty_object :: "jsstring option \<Rightarrow> jsstring" where
  \<comment> \<open>\<open>req.rawBody || "{}"\<close>\<close>
  "body_or_empty_object rb = (case rb of None \<Rightarrow> lit ''{}'' | Some s \<Rightarrow> if s = [] then lit ''{}'' else s)"

definition lemonsqueezy_handler :: "runtime \<Rightarrow> env \<Rightarrow> request \<Rightarrow> outcome" where
  "lemonsqueezy_handler rt ev req =
     (let sig = headers req ''x-signature'';
          secret = LEMONSQUEEZY_SIGNING_SECRET ev
      in case verifyLemonSignature (hmac rt) (rawBody req) sig secret of
           Inl e \<Rightarrow> server_error
         | Inr False \<Rightarrow> (\<lparr>status = 400, body = ''Invalid LemonSqueezy signature''\<rparr>, [])
         | Inr True \<Rightarrow>
             (case JSON_parse rt (body_or_empty_object (rawBody req)) of
                None \<Rightarrow> server_error
              | Some evt \<Rightarrow>
                  if lemon_success evt then
                    (case lemon_order (coerce rt) evt of
                       Inl e \<Rightarrow> server_error
                     | Inr ord \<Rightarrow> send_order rt ord)
                  else (\<lparr>status = 200, body = ''ok''\<rparr>, [])))"

subsection \<open>NOWPayments\<close>

definition is_word :: "code_unit \<Rightarrow> bool" where
  \<comment> \<open>\<open>\w\<close>\<close>
  "is_word c = ((0x30 \<le> c \<and> c \<le> 0x39) \<or> (0x41 \<le> c \<and> c \<le> 0x5A) \<or> c = 0x5F
                \<or> (0x61 \<le> c \<and> c \<le> 0x7A))"

definition lower_unit :: "code_unit \<Rightarrow> code_unit" where
  "lower_unit c = (if 0x41 \<le> c \<and> c \<le> 0x5A then c + 0x20 else c)"

definition toLowerCase :: "jsstring \<Rightarrow> jsstring" where
  \<comment> \<open>\<open>toLowerCase\<close> on a word matched by \<open>\w+\<close>: only A to Z change\<close>
  "toLowerCase s = map lower_unit s"

fun strip_prefix_ci :: "jsstring \<Rightarrow> jsstring \<Rightarrow> jsstring option" where
  \<comment> \<open>the pattern (in lower case) at the start of the text, letters compared without case
      as the flag \<open>i\<close> does; the result is the text after it\<close>
  "strip_prefix_ci [] s = Some s"
| "strip_prefix_ci (p # ps) [] = None"
| "strip_prefix_ci (p # ps) (c # cs) = (if lower_unit c = p then strip_prefix_ci ps cs else None)"

fun match_type :: "jsstring \<Rightarrow> jsstring option" where
  \<comment> \<open>\<open>s.match(/type=(\w+)/i)\<close>: the first capture group of the leftmost match, the
      longest run of word characters after \<open>type=\<close>; \<open>None\<close> for no match\<close>
  "match_type [] = None"
| "match_type (c # cs) =
     (case strip_prefix_ci (lit ''type='') (c # cs) of
        None \<Rightarrow> match_type cs
      | Some rest \<Rightarrow>
          if takeWhile is_word rest \<noteq> [] then Some (takeWhile is_word rest) else match_type cs)"

definition nowpayments_success :: "jsval \<Rightarrow> bool" where
  "nowpayments_success evt = (get evt ''payment_status'' = Str (lit ''finished''))"

definition nowpayments_websiteType :: "jsval \<Rightarrow> jsval" where
  "nowpayments_websiteType evt =
     (case get evt ''order_description'' of
        Str d \<Rightarrow> (case match_type d of Some w \<Rightarrow> Str (toLowerCase w) | None \<Rightarrow> Str (lit ''unknown''))
      | _ \<Rightarrow> Str (lit ''unknown''))"

definition nowpayments_order :: "jsval \<Rightarrow> order" where
  \<comment> \<open>the extraction of the NOWPayments handler\<close>
  "nowpayments_order evt =
     \<lparr>buyerEmail = or_else (get evt ''customer_email'') Null,
      websiteType = nowpayments_websiteType evt,
      amount = get evt ''price_amount'',
      currency = or_else (get evt ''price_currency'') (Str (lit ''USD'')),
      raw = evt\<rparr>"

definition nowpayments_handler :: "runtime \<Rightarrow> env \<Rightarrow> request \<Rightarrow> outcome" where
  "nowpayments_handler rt ev req =
     (let sig = headers req ''x-nowpayments-sig'';
          secret = NOWPAYMENTS_IPN_SECRET ev
      in case verifyNowPaymentsSignature (hmac rt) (rawBody req) sig secret of
           Inl e \<Rightarrow> server_error
         | Inr False \<Rightarrow> (\<lparr>status = 400, body = ''Invalid NOWPayments signature''\<rparr>, [])
         | Inr True \<Rightarrow>
             (case JSON_parse rt (body_or_empty_object (rawBody req)) of
                None \<Rightarrow> server_error
              | Some evt \<Rightarrow>
                  if nowpayments_success evt then send_order rt (nowpayments_order evt)
                  else (\<lparr>status = 200, body = ''ok''\<rparr>, [])))"

subsection \<open>The two routes\<close>

definition post_lemonsqueezy ::
  "runtime \<Rightarrow> env \<Rightarrow> (string \<Rightarrow> jsstring option) \<Rightarrow> byte list option \<Rightarrow> outcome" where
  \<comment> \<open>\<open>POST /webhook/lemonsqueezy\<close>: raw body capture, then the handler\<close>
  "post_lemonsqueezy rt ev hs buf = lemonsqueezy_handler rt ev (capture hs buf)"

definition post_nowpayments ::
  "runtime \<Rightarrow> env \<Rightarrow> (string \<Rightarrow> jsstring option) \<Rightarrow> byte list option \<Rightarrow> outcome" where
  \<comment> \<open>\<open>POST /webhook/nowpayments\<close>\<close>
  "post_nowpayments rt ev hs buf = nowpayments_handler rt ev (capture hs buf)"


section \<open>Notions used in the statements\<close>

definition ascii :: "jsstring \<Rightarrow> bool" where
  \<comment> \<open>every code unit is below 128, so one byte in UTF-8\<close>
  "ascii s = (\<forall>u\<in>set s. u < 0x80)"

definition scalar_value :: "nat \<Rightarrow> bool" where
  \<comment> \<open>a Unicode scalar value: a code point that is no surrogate\<close>
  "scalar_value cp = (cp < 0x110000 \<and> \<not> (0xD800 \<le> cp \<and> cp \<le> 0xDFFF))"

definition attribute :: "jsval \<Rightarrow> string \<Rightarrow> jsval" where
  \<comment> \<open>the field \<open>data.attributes.k\<close> of an event\<close>
  "attribute evt k = get (get (get evt ''data'') ''attributes'') k"

definition custom_data :: "jsval \<Rightarrow> string \<Rightarrow> jsval" where
  \<comment> \<open>the field \<open>meta.custom_data.k\<close> of an event\<close>
  "custom_data evt k = get (get (get evt ''meta'') ''custom_data'') k"



definition digest_length :: "hash_alg \<Rightarrow> nat" where
  \<comment> \<open>the digest sizes of SHA-256 and SHA-512, in bytes\<close>
  "digest_length alg = (case alg of SHA256 \<Rightarrow> 32 | SHA512 \<Rightarrow> 64)"

definition sized :: "hmac_fn \<Rightarrow> bool" where
  \<comment> \<open>every digest has the length of its algorithm\<close>
  "sized hm = (\<forall>alg k m. length (hm alg k m) = digest_length alg)"

subsection \<open>The double nearest to a rational\<close>

text \<open>
  What the division of two doubles is required to be: the exact quotient rounded to the
  nearest double, a tie going to the double with the even significand, and a quotient
  that rounds to zero keeping its sign.
\<close>

definition is_double :: "rat \<Rightarrow> bool" where
  \<comment> \<open>a finite double: a significand below \<open>2^53\<close>, an exponent of at least \<open>-1074\<close>, a
      magnitude below \<open>2^1024\<close>\<close>
  "is_double z = ((\<exists>m g. \<bar>z\<bar> = of_nat m * pow2 g \<and> m < 2 ^ 53 \<and> - 1074 \<le> g) \<and> \<bar>z\<bar> < pow2 1024)"

definition even_significand :: "rat \<Rightarrow> bool" where
  \<comment> \<open>the significand of the double, normalised (or subnormal), is even\<close>
  "even_significand y =
     (\<exists>m g. \<bar>y\<bar> = of_nat m * pow2 g \<and> even m \<and> m < 2 ^ 53 \<and> - 1074 \<le> g
        \<and> (2 ^ 52 \<le> m \<or> g = - 1074))"

definition nearest_double :: "rat \<Rightarrow> rat \<Rightarrow> bool" where
  \<comment> \<open>\<open>y\<close> is a double, no double is nearer to \<open>q\<close>, and when another double is as near,
      \<open>y\<close> is the one with the even significand\<close>
  "nearest_double q y =
     (is_double y
      \<and> (\<forall>z. is_double z \<longrightarrow> \<bar>y - q\<bar> \<le> \<bar>z - q\<bar>)
      \<and> (\<forall>z. is_double z \<and> z \<noteq> y \<and> \<bar>z - q\<bar> = \<bar>y - q\<bar> \<longrightarrow> even_significand y))"

definition correctly_rounded :: "rat \<Rightarrow> jsnum \<Rightarrow> bool" where
  \<comment> \<open>the number \<open>n\<close> is the rational \<open>q\<close> rounded to a double: positive zero only for
      \<open>q \<ge> 0\<close>, negative zero only for \<open>q < 0\<close>\<close>
  "correctly_rounded q n =
     (case n of
        Fin y \<Rightarrow> nearest_double q y \<and> (y = 0 \<longrightarrow> 0 \<le> q)
      | NegZero \<Rightarrow> nearest_double q 0 \<and> q < 0
      | _ \<Rightarrow> False)"

subsection \<open>A sample runtime\<close>

text \<open>
  Concrete inputs need a concrete digest and parser. The sample digest is the key followed
  by the message, padded with zeros and cut to the digest length; the sample parser knows
  five bodies.
\<close>

definition sample_hmac :: hmac_fn where
  "sample_hmac alg k m = take (digest_length alg) (k @ m @ replicate (digest_length alg) 0)"

definition created_body :: jsstring where
  \<open>created_body = lit ''{"meta":{"event_name":"order_created"},"data":{"attributes":{"total":2500}}}''\<close>

definition created_event :: jsval where
  "created_event =
     Obj [(lit ''meta'', Obj [(lit ''event_name'', Str (lit ''order_created''))]),
          (lit ''data'', Obj [(lit ''attributes'', Obj [(lit ''total'', Num (Fin 2500))])])]"

definition refunded_body :: jsstring where
  \<open>refunded_body = lit ''{"meta":{"event_name":"order_refunded"}}''\<close>

definition refunded_event :: jsval where
  "refunded_event = Obj [(lit ''meta'', Obj [(lit ''event_name'', Str (lit ''order_refunded''))])]"

definition finished_body :: jsstring where
  \<open>finished_body = lit ''{"payment_status":"finished","price_amount":25,"order_description":"type=AI;email=x@y.com"}''\<close>

definition finished_event :: jsval where
  "finished_event =
     Obj [(lit ''payment_status'', Str (lit ''finished'')),
          (lit ''price_amount'', Num (Fin 25)),
          (lit ''order_description'', Str (lit ''type=AI;email=x@y.com''))]"

definition waiting_body :: jsstring where
  \<open>waiting_body = lit ''{"payment_status":"waiting"}''\<close>

definition waiting_event :: jsval where
  "waiting_event = Obj [(lit ''payment_status'', Str (lit ''waiting''))]"

definition unconvertible_created_body :: jsstring where
  \<open>unconvertible_created_body = lit ''{"meta":{"event_name":"order_created"},"data":{"attributes":{"total":{"valueOf":1,"toString":1}}}}''\<close>

definition unconvertible_created_event :: jsval where
  "unconvertible_created_event =
     Obj [(lit ''meta'', Obj [(lit ''event_name'', Str (lit ''order_created''))]),
          (lit ''data'', Obj [(lit ''attributes'',
            Obj [(lit ''total'', Obj [(lit ''valueOf'', Num (Fin 1)), (lit ''toString'', Num (Fin 1))])])])]"

definition fractional_event :: jsval where
  \<comment> \<open>\<open>{"data":{"attributes":{"total":1999}}}\<close>\<close>
  "fractional_event =
     Obj [(lit ''data'', Obj [(lit ''attributes'', Obj [(lit ''total'', Num (Fin 1999))])])]"

definition null_total_event :: jsval where
  \<comment> \<open>\<open>{"data":{"attributes":{"total":null}}}\<close>\<close>
  "null_total_event =
     Obj [(lit ''data'', Obj [(lit ''attributes'', Obj [(lit ''total'', Null)])])]"

definition infinite_total_event :: jsval where
  \<comment> \<open>\<open>{"data":{"attributes":{"total":1e999}}}\<close>\<close>
  "infinite_total_event =
     Obj [(lit ''data'', Obj [(lit ''attributes'', Obj [(lit ''total'', Num PosInf)])])]"

definition sample_parse :: "jsstring \<Rightarrow> jsval option" where
  "sample_parse s =
     (if s = created_body then Some created_event
      else if s = refunded_body then Some refunded_event
      else if s = finished_body then Some finished_event
      else if s = waiting_body then Some waiting_event
      else if s = unconvertible_created_body then Some unconvertible_created_event
      else None)"

definition sample_coerce :: "jsval \<Rightarrow> jsnum option" where
  \<comment> \<open>a stand-in for the conversion: an object whose own \<open>valueOf\<close> and \<open>toString\<close> are both
      values (so not callable) has no primitive value; everything else is taken to be
      not-a-number\<close>
  "sample_coerce v =
     (case v of
        Obj kvs \<Rightarrow>
          if map_of kvs (lit ''valueOf'') \<noteq> None \<and> map_of kvs (lit ''toString'') \<noteq> None
          then None else Some NaN
      | _ \<Rightarrow> Some NaN)"

definition unconvertible_event :: jsval where
  "unconvertible_event =
     Obj [(lit ''data'', Obj [(lit ''attributes'',
            Obj [(lit ''total'', Obj [(lit ''valueOf'', Num (Fin 1)), (lit ''toString'', Num (Fin 1))])])])]"

definition always_sent :: "order \<Rightarrow> bool" where
  "always_sent ord = True"

definition sample_runtime :: runtime where
  "sample_runtime =
     \<lparr>hmac = sample_hmac, JSON_parse = sample_parse, coerce = sample_coerce, notifyOrder = always_sent\<rparr>"

definition sample_env :: env where
  "sample_env =
     \<lparr>LEMONSQUEEZY_SIGNING_SECRET = Some (lit ''ls-secret''),
      NOWPAYMENTS_IPN_SECRET = Some (lit ''np-secret'')\<rparr>"

definition signed_lemon :: "jsstring \<Rightarrow> request" where
  \<comment> \<open>a LemonSqueezy request with the body signed under the sample secret\<close>
  "signed_lemon b =
     \<lparr>headers = [''x-signature'' \<mapsto> hmac_hex sample_hmac SHA256 (lit ''ls-secret'') b],
      rawBody = Some b\<rparr>"

definition signed_nowpayments :: "jsstring \<Rightarrow> request" where
  "signed_nowpayments b =
     \<lparr>headers = [''x-nowpayments-sig'' \<mapsto> hmac_hex sample_hmac SHA512 (lit ''np-secret'') b],
      rawBody = Some b\<rparr>"

section \<open>Bytes, code units and hexadecimal digests\<close>

lemma unat_of_nat16: "k < 65536 \<Longrightarrow> unat (of_nat k :: code_unit) = k"
  by (simp add: unat_of_nat)

lemma unat_of_nat8: "k < 256 \<Longrightarrow> unat (of_nat k :: byte) = k"
  by (simp add: unat_of_nat)

lemma unat_byte_lt: "unat (b :: byte) < 256"
  using unsigned_less [of b, where ?'a = nat] by simp

lemma unat_unit_lt: "unat (u :: code_unit) < 65536"
  using unsigned_less [of u, where ?'a = nat] by simp

lemma unat_lt_128: "(u :: code_unit) < 0x80 \<longleftrightarrow> unat u < 128"
  by (simp add: word_less_nat_alt)

lemma lone_unit_ascii: "u < 0x80 \<Longrightarrow> lone_unit u = unat u"
  by (simp add: lone_unit_def is_high_surrogate_def is_low_surrogate_def word_le_nat_alt
      word_less_nat_alt)

lemma not_high_ascii: "u < 0x80 \<Longrightarrow> \<not> is_high_surrogate u"
  by (simp add: is_high_surrogate_def word_le_nat_alt word_less_nat_alt)

lemma utf16_decode_ascii: "ascii s \<Longrightarrow> utf16_decode s = map unat s"
  by (induction s rule: utf16_decode.induct)
    (simp_all add: ascii_def lone_unit_ascii not_high_ascii)

lemma utf8_encode_ascii: "ascii s \<Longrightarrow> utf8_encode (map unat s) = map ucast s"
  by (induction s) (simp_all add: ascii_def utf8_encode_def utf8_encode1_def unat_lt_128)

lemma Buffer_from_ascii: "ascii s \<Longrightarrow> Buffer_from s = map ucast s"
  by (simp add: Buffer_from_def utf16_decode_ascii utf8_encode_ascii)

lemma hex_digit_ascii: "n < 16 \<Longrightarrow> hex_digit n < 0x80"
  unfolding hex_digit_def word_less_nat_alt
  by (simp add: unat_of_nat16 del: of_nat_add of_nat_numeral)

lemma ascii_hex: "ascii (hex bs)"
proof -
  have "hex_digit (unat b div 16) < 0x80 \<and> hex_digit (unat b mod 16) < 0x80" for b :: byte
    using unat_byte_lt [of b] by (intro conjI hex_digit_ascii) simp_all
  then show ?thesis
    by (induction bs) (simp_all add: ascii_def hex_def)
qed

lemma length_hex: "length (hex bs) = 2 * length bs"
  by (induction bs) (simp_all add: hex_def)

lemma length_Buffer_from_hex: "length (Buffer_from (hex bs)) = 2 * length bs"
  by (simp add: Buffer_from_ascii ascii_hex length_hex)

lemma utf8_encode1_ascii: "cp < 0x80 \<Longrightarrow> utf8_encode1 cp = [of_nat cp]"
  by (simp add: utf8_encode1_def)

lemma utf8_encode1_high:
  assumes "0x80 \<le> cp" "cp < 0x110000"
  shows "\<exists>b r. utf8_encode1 cp = b # r \<and> 0x80 \<le> b"
proof -
  have a: "cp < 0x800 \<Longrightarrow> 0xC0 + cp div 64 < 256" by simp
  have b: "cp < 0x10000 \<Longrightarrow> 0xE0 + cp div 4096 < 256" by simp
  have c: "0xF0 + cp div 262144 < 256" using assms(2) by simp
  show ?thesis
    using assms a b c unfolding utf8_encode1_def word_le_nat_alt
    by (simp add: unat_of_nat8 del: of_nat_add of_nat_numeral)
qed

lemma ucast_ascii_unat: "(x :: code_unit) < 0x80 \<Longrightarrow> unat (ucast x :: byte) = unat x"
  by (simp add: unsigned_ucast_eq take_bit_nat_eq_self word_less_nat_alt)

lemma ucast_ascii_lt: "(x :: code_unit) < 0x80 \<Longrightarrow> (ucast x :: byte) < 0x80"
  by (simp add: word_less_nat_alt ucast_ascii_unat)

lemma lone_unit_lt: "lone_unit u < 0x110000"
  using unat_unit_lt [of u] by (simp add: lone_unit_def)

lemma lone_unit_small: "lone_unit u < 0x80 \<Longrightarrow> lone_unit u = unat u"
  by (simp add: lone_unit_def split: if_splits)

lemma pair_range:
  "is_high_surrogate u \<Longrightarrow> is_low_surrogate v \<Longrightarrow>
   0x10000 \<le> 0x10000 + (unat u - 0xD800) * 1024 + (unat v - 0xDC00) \<and>
   0x10000 + (unat u - 0xD800) * 1024 + (unat v - 0xDC00) < (0x110000 :: nat)"
  unfolding is_high_surrogate_def is_low_surrogate_def word_le_nat_alt
  by simp arith

lemma encode1_cons_ascii:
  assumes "utf8_encode1 cp @ rest = ucast x # xs" "(x :: code_unit) < 0x80" "cp < 0x110000"
  shows "cp = unat x \<and> rest = xs"
proof (cases "cp < 0x80")
  case True
  with assms(1) have eq: "(of_nat cp :: byte) = ucast x" and r: "rest = xs"
    by (simp_all add: utf8_encode1_ascii)
  from eq have "unat (of_nat cp :: byte) = unat (ucast x :: byte)" by simp
  with True assms(2) have "cp = unat x"
    by (simp add: unat_of_nat8 ucast_ascii_unat)
  with r show ?thesis by simp
next
  case False
  then obtain b r where "utf8_encode1 cp = b # r" "0x80 \<le> b"
    using utf8_encode1_high [of cp] assms(3) by auto
  with assms(1) have "0x80 \<le> (ucast x :: byte)" by simp
  with ucast_ascii_lt [OF assms(2)] show ?thesis by simp
qed

lemma Buffer_from_Cons_lone:
  "\<not> (is_high_surrogate u \<and> (\<exists>v r. s = v # r \<and> is_low_surrogate v)) \<Longrightarrow>
   Buffer_from (u # s) = utf8_encode1 (lone_unit u) @ Buffer_from s"
  by (cases s) (auto simp: Buffer_from_def utf8_encode_def)

lemma Buffer_from_Cons_pair:
  "is_high_surrogate u \<Longrightarrow> is_low_surrogate v \<Longrightarrow>
   Buffer_from (u # v # r) =
     utf8_encode1 (0x10000 + (unat u - 0xD800) * 1024 + (unat v - 0xDC00)) @ Buffer_from r"
  by (simp add: Buffer_from_def utf8_encode_def)

lemma Buffer_from_Nil: "Buffer_from [] = []"
  by (simp add: Buffer_from_def utf8_encode_def)

text \<open>A string whose bytes are those of an ASCII string is that string.\<close>

lemma Buffer_from_eq_ascii:
  "ascii d \<Longrightarrow> Buffer_from h = map ucast d \<Longrightarrow> h = d"
proof (induction h arbitrary: d)
  case Nil
  then show ?case by (simp add: Buffer_from_Nil)
next
  case (Cons u s)
  show ?case
  proof (cases "is_high_surrogate u \<and> (\<exists>v r. s = v # r \<and> is_low_surrogate v)")
    case True
    then obtain v r where s: "s = v # r" and hi: "is_high_surrogate u" and lo: "is_low_surrogate v"
      by auto
    let ?cp = "0x10000 + (unat u - 0xD800) * 1024 + (unat v - 0xDC00)"
    from Cons.prems(2) s hi lo have eq: "utf8_encode1 ?cp @ Buffer_from r = map ucast d"
      by (simp add: Buffer_from_Cons_pair)
    obtain b t where bt: "utf8_encode1 ?cp = b # t" "0x80 \<le> b"
      using utf8_encode1_high [of ?cp] pair_range [OF hi lo] by auto
    with eq obtain x xs where d: "d = x # xs" by (cases d) auto
    with eq bt have "0x80 \<le> (ucast x :: byte)" by simp
    moreover from Cons.prems(1) d have "x < 0x80" by (simp add: ascii_def)
    ultimately show ?thesis using ucast_ascii_lt [of x] by simp
  next
    case False
    then have eq: "utf8_encode1 (lone_unit u) @ Buffer_from s = map ucast d"
      using Cons.prems(2) by (simp add: Buffer_from_Cons_lone)
    have "utf8_encode1 (lone_unit u) \<noteq> []"
      by (simp add: utf8_encode1_def)
    with eq obtain x xs where d: "d = x # xs" by (cases d) auto
    from Cons.prems(1) d have x: "x < 0x80" and xs: "ascii xs" by (simp_all add: ascii_def)
    from eq d have "utf8_encode1 (lone_unit u) @ Buffer_from s = ucast x # map ucast xs" by simp
    from encode1_cons_ascii [OF this x lone_unit_lt]
    have cp: "lone_unit u = unat x" and rest: "Buffer_from s = map ucast xs" by simp_all
    from cp x have "lone_unit u < 0x80" by (simp add: word_less_nat_alt)
    then have "unat u = unat x" using cp lone_unit_small by simp
    then have "u = x" by (simp add: word_unat_eq_iff)
    moreover from Cons.IH [OF xs rest] have "s = xs" .
    ultimately show ?thesis using d by simp
  qed
qed

lemma Buffer_from_inj_ascii: "ascii d \<Longrightarrow> Buffer_from h = Buffer_from d \<Longrightarrow> h = d"
  by (simp add: Buffer_from_eq_ascii Buffer_from_ascii)

section \<open>Verification rejects on missing input\<close>

lemma verify_no_secret:
  "verifyLemonSignature hm rb header None = Inr False"
  "verifyLemonSignature hm rb header (Some []) = Inr False"
  "verifyNowPaymentsSignature hm rb header None = Inr False"
  "verifyNowPaymentsSignature hm rb header (Some []) = Inr False"
  by (cases rb; cases header; simp)+

lemma verify_no_body:
  "verifyLemonSignature hm None header secret = Inr False"
  "verifyLemonSignature hm (Some []) header secret = Inr False"
  "verifyNowPaymentsSignature hm None header secret = Inr False"
  "verifyNowPaymentsSignature hm (Some []) header secret = Inr False"
  by (cases secret; cases header; simp)+

lemma verify_no_header:
  "verifyLemonSignature hm rb None secret = Inr False"
  "verifyLemonSignature hm rb (Some []) secret = Inr False"
  "verifyNowPaymentsSignature hm rb None secret = Inr False"
  "verifyNowPaymentsSignature hm rb (Some []) secret = Inr False"
  by (cases secret; cases rb; simp)+

lemma capture_empty:
  "rawBody (capture hs (Some [])) = None"
  "rawBody (capture hs None) = None"
  by (simp_all add: capture_def rawBodySaver_def)


lemma rejected_400:
  "verifyLemonSignature (hmac rt) (rawBody req) (headers req ''x-signature'')
      (LEMONSQUEEZY_SIGNING_SECRET ev) = Inr False \<Longrightarrow>
   lemonsqueezy_handler rt ev req = (\<lparr>status = 400, body = ''Invalid LemonSqueezy signature''\<rparr>, [])"
  "verifyNowPaymentsSignature (hmac rt) (rawBody req) (headers req ''x-nowpayments-sig'')
      (NOWPAYMENTS_IPN_SECRET ev) = Inr False \<Longrightarrow>
   nowpayments_handler rt ev req = (\<lparr>status = 400, body = ''Invalid NOWPayments signature''\<rparr>, [])"
  by (simp_all add: lemonsqueezy_handler_def nowpayments_handler_def)

lemma missing_header_400:
  "headers req ''x-signature'' = None \<Longrightarrow>
   lemonsqueezy_handler rt ev req = (\<lparr>status = 400, body = ''Invalid LemonSqueezy signature''\<rparr>, [])"
  "headers req ''x-nowpayments-sig'' = None \<Longrightarrow>
   nowpayments_handler rt ev req = (\<lparr>status = 400, body = ''Invalid NOWPayments signature''\<rparr>, [])"
  by (simp_all add: rejected_400 verify_no_header)

text \<open>
  Claim C9. Whatever the header and the body are, both verifiers return false when the
  provider's secret is unset or the empty string, and the handler of the provider answers
  400 without calling \<open>notifyOrder\<close>: a missing secret never skips verification.
\<close>

theorem missing_secret_rejected:
  "verifyLemonSignature hm rb header None = Inr False
 \<and> verifyLemonSignature hm rb header (Some []) = Inr False
 \<and> verifyNowPaymentsSignature hm rb header None = Inr False
 \<and> verifyNowPaymentsSignature hm rb header (Some []) = Inr False
 \<and> lemonsqueezy_handler rt \<lparr>LEMONSQUEEZY_SIGNING_SECRET = None, NOWPAYMENTS_IPN_SECRET = s\<rparr> req
      = (\<lparr>status = 400, body = ''Invalid LemonSqueezy signature''\<rparr>, [])
 \<and> lemonsqueezy_handler rt \<lparr>LEMONSQUEEZY_SIGNING_SECRET = Some [], NOWPAYMENTS_IPN_SECRET = s\<rparr> req
      = (\<lparr>status = 400, body = ''Invalid LemonSqueezy signature''\<rparr>, [])
 \<and> nowpayments_handler rt \<lparr>LEMONSQUEEZY_SIGNING_SECRET = s, NOWPAYMENTS_IPN_SECRET = None\<rparr> req
      = (\<lparr>status = 400, body = ''Invalid NOWPayments signature''\<rparr>, [])
 \<and> nowpayments_handler rt \<lparr>LEMONSQUEEZY_SIGNING_SECRET = s, NOWPAYMENTS_IPN_SECRET = Some []\<rparr> req
      = (\<lparr>status = 400, body = ''Invalid NOWPayments signature''\<rparr>, [])"
  by (simp add: verify_no_secret lemonsqueezy_handler_def nowpayments_handler_def)

text \<open>
  Claim C10. A request with an empty body is answered 400 on both routes whatever its
  headers are, the digest of the empty string included: the capture leaves \<open>rawBody\<close>
  undefined for an empty buffer, and both verifiers return false for an undefined or
  empty raw body.
\<close>

theorem empty_body_rejected:
  "post_lemonsqueezy rt ev hs (Some [])
      = (\<lparr>status = 400, body = ''Invalid LemonSqueezy signature''\<rparr>, [])
 \<and> post_nowpayments rt ev hs (Some [])
      = (\<lparr>status = 400, body = ''Invalid NOWPayments signature''\<rparr>, [])
 \<and> rawBodySaver req (Some []) = req
 \<and> verifyLemonSignature hm None header secret = Inr False
 \<and> verifyLemonSignature hm (Some []) header secret = Inr False
 \<and> verifyNowPaymentsSignature hm None header secret = Inr False
 \<and> verifyNowPaymentsSignature hm (Some []) header secret = Inr False"
  by (simp add: post_lemonsqueezy_def post_nowpayments_def lemonsqueezy_handler_def
      nowpayments_handler_def capture_empty verify_no_body rawBodySaver_def)

section \<open>A header of the wrong length\<close>

lemma toString_braces: "toString_utf8 [0x7B, 0x7D] = [0x7B, 0x7D]"
  by (simp add: toString_utf8_def utf8_decode_def utf16_encode_def utf16_encode1_def)

lemma Buffer_from_abc: "Buffer_from (lit ''abc'') = [0x61, 0x62, 0x63]"
  by (simp add: lit_def Buffer_from_def utf8_encode_def utf8_encode1_def lone_unit_def
      is_high_surrogate_def is_low_surrogate_def)

lemma hex_digest_not_3: "length (Buffer_from (hmac_hex hm alg secret rb)) \<noteq> 3"
  unfolding hmac_hex_def length_Buffer_from_hex by presburger

text \<open>
  Claim C1 says that a request whose signature does not verify is answered 400. The
  handlers answer 500 when the header has another byte length than the hexadecimal
  digest: \<open>timingSafeEqual\<close> throws, and the catch block answers. Here the body is \<open>{}\<close>,
  the secret \<open>s\<close> and the header \<open>abc\<close>; a hexadecimal digest has an even length, so the
  result does not depend on the digest function.
\<close>

theorem wrong_length_header_500:
  "post_lemonsqueezy rt
      \<lparr>LEMONSQUEEZY_SIGNING_SECRET = Some (lit ''s''), NOWPAYMENTS_IPN_SECRET = None\<rparr>
      [''x-signature'' \<mapsto> lit ''abc''] (Some [0x7B, 0x7D])
    = (\<lparr>status = 500, body = ''server error''\<rparr>, [])
 \<and> post_nowpayments rt
      \<lparr>LEMONSQUEEZY_SIGNING_SECRET = None, NOWPAYMENTS_IPN_SECRET = Some (lit ''s'')\<rparr>
      [''x-nowpayments-sig'' \<mapsto> lit ''abc''] (Some [0x7B, 0x7D])
    = (\<lparr>status = 500, body = ''server error''\<rparr>, [])"
  using hex_digest_not_3 [of "hmac rt" SHA256 "lit ''s''" "[0x7B, 0x7D]"]
    hex_digest_not_3 [of "hmac rt" SHA512 "lit ''s''" "[0x7B, 0x7D]"]
  by (simp add: post_lemonsqueezy_def post_nowpayments_def capture_def rawBodySaver_def
      toString_braces lemonsqueezy_handler_def nowpayments_handler_def timingSafeEqual_def
      Buffer_from_abc server_error_def)
    (simp add: lit_def)


section \<open>Verified requests\<close>

lemma timingSafeEqual_True_iff: "timingSafeEqual a b = Inr True \<longleftrightarrow> a = b"
  by (auto simp: timingSafeEqual_def)

lemma timingSafeEqual_hex_True_iff:
  "timingSafeEqual (Buffer_from h) (Buffer_from (hex bs)) = Inr True \<longleftrightarrow> h = hex bs"
  using Buffer_from_inj_ascii [OF ascii_hex, of h bs]
  by (auto simp: timingSafeEqual_True_iff)

lemma verifyLemon_True_iff:
  "verifyLemonSignature hm rbo ho so = Inr True \<longleftrightarrow>
     (\<exists>rb h s. rbo = Some rb \<and> ho = Some h \<and> so = Some s \<and> rb \<noteq> [] \<and> h \<noteq> [] \<and> s \<noteq> []
        \<and> h = hmac_hex hm SHA256 s rb)"
  by (cases rbo; cases ho; cases so)
    (auto simp: timingSafeEqual_hex_True_iff hmac_hex_def)

lemma verifyNow_True_iff:
  "verifyNowPaymentsSignature hm rbo ho so = Inr True \<longleftrightarrow>
     (\<exists>rb h s. rbo = Some rb \<and> ho = Some h \<and> so = Some s \<and> rb \<noteq> [] \<and> h \<noteq> [] \<and> s \<noteq> []
        \<and> h = hmac_hex hm SHA512 s rb)"
  by (cases rbo; cases ho; cases so)
    (auto simp: timingSafeEqual_hex_True_iff hmac_hex_def)

lemma lemon_order_raw: "lemon_order co evt = Inr ord \<Longrightarrow> raw ord = evt"
  by (auto simp: lemon_order_def Let_def split: sum.splits)

lemma body_or_empty_object_Some: "rb \<noteq> [] \<Longrightarrow> body_or_empty_object (Some rb) = rb"
  by (simp add: body_or_empty_object_def)

text \<open>What the handlers do with a verified request.\<close>

lemma lemonsqueezy_handler_verified:
  assumes "verifyLemonSignature (hmac rt) (rawBody req) (headers req ''x-signature'')
             (LEMONSQUEEZY_SIGNING_SECRET ev) = Inr True"
    and "rawBody req = Some rb"
  shows "lemonsqueezy_handler rt ev req =
     (case JSON_parse rt rb of
        None \<Rightarrow> server_error
      | Some evt \<Rightarrow>
          if lemon_success evt then
            (case lemon_order (coerce rt) evt of
               Inl e \<Rightarrow> server_error
             | Inr ord \<Rightarrow> send_order rt ord)
          else (\<lparr>status = 200, body = ''ok''\<rparr>, []))"
proof -
  from assms have "rb \<noteq> []" by (auto simp: verifyLemon_True_iff)
  with assms show ?thesis
    by (simp add: lemonsqueezy_handler_def body_or_empty_object_Some)
qed

lemma nowpayments_handler_verified:
  assumes "verifyNowPaymentsSignature (hmac rt) (rawBody req) (headers req ''x-nowpayments-sig'')
             (NOWPAYMENTS_IPN_SECRET ev) = Inr True"
    and "rawBody req = Some rb"
  shows "nowpayments_handler rt ev req =
     (case JSON_parse rt rb of
        None \<Rightarrow> server_error
      | Some evt \<Rightarrow>
          if nowpayments_success evt then send_order rt (nowpayments_order evt)
          else (\<lparr>status = 200, body = ''ok''\<rparr>, []))"
proof -
  from assms have "rb \<noteq> []" by (auto simp: verifyNow_True_iff)
  with assms show ?thesis
    by (simp add: nowpayments_handler_def body_or_empty_object_Some)
qed

lemma lemonsqueezy_handler_unverified:
  "verifyLemonSignature (hmac rt) (rawBody req) (headers req ''x-signature'')
      (LEMONSQUEEZY_SIGNING_SECRET ev) \<noteq> Inr True \<Longrightarrow>
   snd (lemonsqueezy_handler rt ev req) = []"
  by (auto simp: lemonsqueezy_handler_def server_error_def split: sum.splits bool.splits)

lemma nowpayments_handler_unverified:
  "verifyNowPaymentsSignature (hmac rt) (rawBody req) (headers req ''x-nowpayments-sig'')
      (NOWPAYMENTS_IPN_SECRET ev) \<noteq> Inr True \<Longrightarrow>
   snd (nowpayments_handler rt ev req) = []"
  by (auto simp: nowpayments_handler_def server_error_def split: sum.splits bool.splits)

lemma snd_send_order: "snd (send_order rt ord) = [ord]"
  by (simp add: send_order_def)

lemma lemon_notified:
  assumes "ord \<in> set (snd (lemonsqueezy_handler rt ev req))"
  shows "\<exists>rb secret. rawBody req = Some rb \<and> LEMONSQUEEZY_SIGNING_SECRET ev = Some secret
       \<and> headers req ''x-signature'' = Some (hmac_hex (hmac rt) SHA256 secret rb)
       \<and> verifyLemonSignature (hmac rt) (Some rb)
            (Some (hmac_hex (hmac rt) SHA256 secret rb)) (Some secret) = Inr True
       \<and> JSON_parse rt rb = Some (raw ord)"
proof -
  let ?v = "verifyLemonSignature (hmac rt) (rawBody req) (headers req ''x-signature'')
      (LEMONSQUEEZY_SIGNING_SECRET ev)"
  have v: "?v = Inr True"
    using assms lemonsqueezy_handler_unverified [of rt req ev] by fastforce
  then obtain rb s where rb: "rawBody req = Some rb" and s: "LEMONSQUEEZY_SIGNING_SECRET ev = Some s"
    and h: "headers req ''x-signature'' = Some (hmac_hex (hmac rt) SHA256 s rb)"
    by (auto simp: verifyLemon_True_iff)
  from assms have "JSON_parse rt rb = Some (raw ord)"
    unfolding lemonsqueezy_handler_verified [OF v rb]
    by (auto simp: server_error_def snd_send_order dest: lemon_order_raw
        split: option.splits if_splits sum.splits)
  with v rb s h show ?thesis by auto
qed

lemma nowpayments_notified:
  assumes "ord \<in> set (snd (nowpayments_handler rt ev req))"
  shows "\<exists>rb secret. rawBody req = Some rb \<and> NOWPAYMENTS_IPN_SECRET ev = Some secret
       \<and> headers req ''x-nowpayments-sig'' = Some (hmac_hex (hmac rt) SHA512 secret rb)
       \<and> verifyNowPaymentsSignature (hmac rt) (Some rb)
            (Some (hmac_hex (hmac rt) SHA512 secret rb)) (Some secret) = Inr True
       \<and> JSON_parse rt rb = Some (raw ord)"
proof -
  let ?v = "verifyNowPaymentsSignature (hmac rt) (rawBody req) (headers req ''x-nowpayments-sig'')
      (NOWPAYMENTS_IPN_SECRET ev)"
  have v: "?v = Inr True"
    using assms nowpayments_handler_unverified [of rt req ev] by fastforce
  then obtain rb s where rb: "rawBody req = Some rb" and s: "NOWPAYMENTS_IPN_SECRET ev = Some s"
    and h: "headers req ''x-nowpayments-sig'' = Some (hmac_hex (hmac rt) SHA512 s rb)"
    by (auto simp: verifyNow_True_iff)
  from assms have "JSON_parse rt rb = Some (raw ord)"
    unfolding nowpayments_handler_verified [OF v rb]
    by (auto simp: server_error_def snd_send_order nowpayments_order_def
        split: option.splits if_splits)
  with v rb s h show ?thesis by auto
qed


section \<open>The sample requests\<close>

lemma sized_sample: "sized sample_hmac"
  by (auto simp: sized_def sample_hmac_def min_def)

lemma hmac_hex_nonempty: "sized hm \<Longrightarrow> hmac_hex hm alg s rb \<noteq> []"
proof -
  assume "sized hm"
  then have "length (hmac_hex hm alg s rb) = 2 * digest_length alg"
    by (simp add: hmac_hex_def length_hex sized_def)
  then show ?thesis by (cases alg) (auto simp: digest_length_def)
qed

lemma verify_signed:
  "sized hm \<Longrightarrow> rb \<noteq> [] \<Longrightarrow> s \<noteq> [] \<Longrightarrow>
   verifyLemonSignature hm (Some rb) (Some (hmac_hex hm SHA256 s rb)) (Some s) = Inr True"
  "sized hm \<Longrightarrow> rb \<noteq> [] \<Longrightarrow> s \<noteq> [] \<Longrightarrow>
   verifyNowPaymentsSignature hm (Some rb) (Some (hmac_hex hm SHA512 s rb)) (Some s) = Inr True"
  by (simp_all add: timingSafeEqual_True_iff hmac_hex_nonempty)

lemma sample_bodies_nonempty:
  "created_body \<noteq> []" "refunded_body \<noteq> []" "finished_body \<noteq> []" "waiting_body \<noteq> []"
  by (simp_all add: created_body_def refunded_body_def finished_body_def waiting_body_def lit_def)

lemma sample_parse_bodies:
  "sample_parse created_body = Some created_event"
  "sample_parse refunded_body = Some refunded_event"
  "sample_parse finished_body = Some finished_event"
  "sample_parse waiting_body = Some waiting_event"
  by (simp_all add: sample_parse_def created_body_def refunded_body_def finished_body_def
      waiting_body_def lit_def)

lemma verify_signed_lemon:
  assumes "b \<noteq> []"
  shows "verifyLemonSignature (hmac sample_runtime) (rawBody (signed_lemon b))
     (headers (signed_lemon b) ''x-signature'') (LEMONSQUEEZY_SIGNING_SECRET sample_env) = Inr True"
proof -
  have "lit ''ls-secret'' \<noteq> []" by (simp add: lit_def)
  from verify_signed(1) [OF sized_sample assms this] show ?thesis
    by (simp add: signed_lemon_def sample_env_def sample_runtime_def
        del: verifyLemonSignature.simps)
qed

lemma verify_signed_nowpayments:
  assumes "b \<noteq> []"
  shows "verifyNowPaymentsSignature (hmac sample_runtime) (rawBody (signed_nowpayments b))
     (headers (signed_nowpayments b) ''x-nowpayments-sig'') (NOWPAYMENTS_IPN_SECRET sample_env)
       = Inr True"
proof -
  have "lit ''np-secret'' \<noteq> []" by (simp add: lit_def)
  from verify_signed(2) [OF sized_sample assms this] show ?thesis
    by (simp add: signed_nowpayments_def sample_env_def sample_runtime_def
        del: verifyNowPaymentsSignature.simps)
qed

lemma div100_2500: "div100 (Fin 2500) = Fin 25"
  by (simp add: to_double_def round_double_pos_def ilog2_def pow2_def round_half_even_def
      bitlen.simps)

lemma created_type: "lemon_event_type created_event = Str (lit ''order_created'')"
  by (simp add: lemon_event_type_def created_event_def or_else_def lit_def)

lemma refunded_type: "lemon_event_type refunded_event = Str (lit ''order_refunded'')"
  by (simp add: lemon_event_type_def refunded_event_def or_else_def lit_def)

lemma created_order:
  "lemon_order sample_coerce created_event =
     Inr \<lparr>buyerEmail = Null, websiteType = Str (lit ''unknown''), amount = Num (Fin 25),
          currency = Str (lit ''USD''), raw = created_event\<rparr>"
  by (simp add: lemon_order_def Let_def nullish_def div100_2500 or_else_def created_event_def
      lit_def del: div100.simps)

lemma sample_lemon_created:
  "lemonsqueezy_handler sample_runtime sample_env (signed_lemon created_body) =
     (\<lparr>status = 200, body = ''ok''\<rparr>,
      [\<lparr>buyerEmail = Null, websiteType = Str (lit ''unknown''), amount = Num (Fin 25),
        currency = Str (lit ''USD''), raw = created_event\<rparr>])"
proof -
  have rb: "rawBody (signed_lemon created_body) = Some created_body"
    by (simp add: signed_lemon_def)
  show ?thesis
    unfolding lemonsqueezy_handler_verified [OF verify_signed_lemon [OF sample_bodies_nonempty(1)] rb]
    by (simp add: sample_runtime_def sample_parse_bodies lemon_success_def created_type
        created_order send_order_def always_sent_def)
qed

lemma finished_order:
  "nowpayments_order finished_event =
     \<lparr>buyerEmail = Null, websiteType = Str (lit ''ai''), amount = Num (Fin 25),
      currency = Str (lit ''USD''), raw = finished_event\<rparr>"
  by (simp add: nowpayments_order_def nowpayments_websiteType_def finished_event_def or_else_def
      lit_def is_word_def toLowerCase_def lower_unit_def)

lemma sample_nowpayments_finished:
  "nowpayments_handler sample_runtime sample_env (signed_nowpayments finished_body) =
     (\<lparr>status = 200, body = ''ok''\<rparr>,
      [\<lparr>buyerEmail = Null, websiteType = Str (lit ''ai''), amount = Num (Fin 25),
        currency = Str (lit ''USD''), raw = finished_event\<rparr>])"
proof -
  have rb: "rawBody (signed_nowpayments finished_body) = Some finished_body"
    by (simp add: signed_nowpayments_def)
  have "nowpayments_success finished_event"
    by (simp add: nowpayments_success_def finished_event_def lit_def)
  then show ?thesis
    unfolding nowpayments_handler_verified
      [OF verify_signed_nowpayments [OF sample_bodies_nonempty(3)] rb]
    by (simp add: sample_runtime_def sample_parse_bodies finished_order send_order_def
        always_sent_def)
qed

section \<open>Mutated headers\<close>

lemma flip_low_bit_ascii:
  assumes "(u :: code_unit) < 0x80" "j < 7"
  shows "flip_bit j u < 0x80"
proof -
  have small: "w < 0x80 \<longleftrightarrow> take_bit 7 w = w" for w :: code_unit
    using mask_eq_iff_w2p [of 7 w] by (simp add: word_size take_bit_eq_mask)
  from assms(1) have u: "take_bit 7 u = u" by (simp only: small)
  have upper: "n < 7" if "bit u n" for n
    using that u by (metis bit_take_bit_iff)
  have "take_bit 7 (flip_bit j u) = flip_bit j u"
    by (rule bit_eqI) (use assms(2) upper in \<open>auto simp: bit_take_bit_iff bit_flip_bit_iff\<close>)
  then show ?thesis by (simp only: small)
qed

lemma flip_bit_neq: "j < 16 \<Longrightarrow> flip_bit j (u :: code_unit) \<noteq> u"
proof
  assume "flip_bit j u = u"
  then have "bit (flip_bit j u) j = bit u j" by simp
  moreover assume "j < 16"
  ultimately show False by (simp add: bit_flip_bit_iff)
qed


section \<open>Signing, verifying and mutating\<close>

lemma timingSafeEqual_hex_False:
  "h \<noteq> hex bs \<Longrightarrow> length (Buffer_from h) = 2 * length bs \<Longrightarrow>
   timingSafeEqual (Buffer_from h) (Buffer_from (hex bs)) = Inr False"
  using Buffer_from_inj_ascii [OF ascii_hex, of h bs]
  by (auto simp: timingSafeEqual_def length_Buffer_from_hex)

lemma verifyLemon_wrong_header:
  assumes "h \<noteq> hmac_hex hm SHA256 s rb"
    and "length (Buffer_from h) = length (Buffer_from (hmac_hex hm SHA256 s rb))"
  shows "verifyLemonSignature hm (Some rb) (Some h) (Some s) = Inr False"
proof (cases "rb = [] \<or> h = [] \<or> s = []")
  case True
  then show ?thesis by auto
next
  case False
  with assms show ?thesis
    by (simp add: hmac_hex_def timingSafeEqual_hex_False length_Buffer_from_hex)
qed

lemma verifyNow_wrong_header:
  assumes "h \<noteq> hmac_hex hm SHA512 s rb"
    and "length (Buffer_from h) = length (Buffer_from (hmac_hex hm SHA512 s rb))"
  shows "verifyNowPaymentsSignature hm (Some rb) (Some h) (Some s) = Inr False"
proof (cases "rb = [] \<or> h = [] \<or> s = []")
  case True
  then show ?thesis by auto
next
  case False
  with assms show ?thesis
    by (simp add: hmac_hex_def timingSafeEqual_hex_False length_Buffer_from_hex)
qed

lemma length_hmac_hex: "sized hm \<Longrightarrow> length (Buffer_from (hmac_hex hm alg s rb)) = 2 * digest_length alg"
  by (simp add: hmac_hex_def length_Buffer_from_hex sized_def)

lemma ascii_hmac_hex: "ascii (hmac_hex hm alg s rb)"
  by (simp add: hmac_hex_def ascii_hex)

lemma flipped_digest:
  assumes "i < length d" "j < 7" "ascii d"
  shows "d[i := flip_bit j (d ! i)] \<noteq> d"
    and "length (Buffer_from (d[i := flip_bit j (d ! i)])) = length (Buffer_from d)"
proof -
  let ?d = "d[i := flip_bit j (d ! i)]"
  from assms(1) have "?d ! i = flip_bit j (d ! i)" by simp
  with flip_bit_neq [of j "d ! i"] assms(2) show "?d \<noteq> d" by auto
  have "flip_bit j (d ! i) < 0x80"
    using assms by (intro flip_low_bit_ascii) (simp_all add: ascii_def)
  with assms(3) have "ascii ?d"
    by (auto simp: ascii_def dest: subsetD [OF set_update_subset_insert])
  with assms(3) show "length (Buffer_from ?d) = length (Buffer_from d)"
    by (simp add: Buffer_from_ascii)
qed

text \<open>
  Claim C3, as the code has it. For a digest function with the digest lengths of the two
  algorithms, a non-empty secret and a non-empty body: verifying the body against the
  signature made from that body and that secret returns true. A header that differs from
  the signature is never accepted; verification returns false when the header has the
  byte length of the signature, in particular when one of the low seven bits of one of
  its characters is flipped. A mutated body is rejected with false whenever its keyed
  digest differs from that of the signed body.
\<close>

theorem signature_roundtrip_and_mutation:
  assumes "sized hm" "rb \<noteq> []" "secret \<noteq> []"
  shows
  "verifyLemonSignature hm (Some rb) (Some (hmac_hex hm SHA256 secret rb)) (Some secret) = Inr True
 \<and> verifyNowPaymentsSignature hm (Some rb) (Some (hmac_hex hm SHA512 secret rb)) (Some secret) = Inr True
 \<and> (header \<noteq> hmac_hex hm SHA256 secret rb \<longrightarrow>
       verifyLemonSignature hm (Some rb) (Some header) (Some secret) \<noteq> Inr True)
 \<and> (header \<noteq> hmac_hex hm SHA512 secret rb \<longrightarrow>
       verifyNowPaymentsSignature hm (Some rb) (Some header) (Some secret) \<noteq> Inr True)
 \<and> (header \<noteq> hmac_hex hm SHA256 secret rb \<and> length (Buffer_from header) = 64 \<longrightarrow>
       verifyLemonSignature hm (Some rb) (Some header) (Some secret) = Inr False)
 \<and> (header \<noteq> hmac_hex hm SHA512 secret rb \<and> length (Buffer_from header) = 128 \<longrightarrow>
       verifyNowPaymentsSignature hm (Some rb) (Some header) (Some secret) = Inr False)
 \<and> (i < 64 \<and> j < 7 \<longrightarrow>
       verifyLemonSignature hm (Some rb)
         (Some ((hmac_hex hm SHA256 secret rb)[i := flip_bit j (hmac_hex hm SHA256 secret rb ! i)]))
         (Some secret) = Inr False)
 \<and> (i < 128 \<and> j < 7 \<longrightarrow>
       verifyNowPaymentsSignature hm (Some rb)
         (Some ((hmac_hex hm SHA512 secret rb)[i := flip_bit j (hmac_hex hm SHA512 secret rb ! i)]))
         (Some secret) = Inr False)
 \<and> (hmac_hex hm SHA256 secret rb' \<noteq> hmac_hex hm SHA256 secret rb \<longrightarrow>
       verifyLemonSignature hm (Some rb') (Some (hmac_hex hm SHA256 secret rb)) (Some secret) = Inr False)
 \<and> (hmac_hex hm SHA512 secret rb' \<noteq> hmac_hex hm SHA512 secret rb \<longrightarrow>
       verifyNowPaymentsSignature hm (Some rb') (Some (hmac_hex hm SHA512 secret rb)) (Some secret) = Inr False)"
proof -
  note len = length_hmac_hex [OF assms(1)]
  have l256: "length (hmac_hex hm SHA256 s b) = 64" and l512: "length (hmac_hex hm SHA512 s b) = 128"
    for s b using assms(1) by (simp_all add: hmac_hex_def length_hex sized_def digest_length_def)
  have 1: "verifyLemonSignature hm (Some rb) (Some (hmac_hex hm SHA256 secret rb)) (Some secret) = Inr True"
    and 2: "verifyNowPaymentsSignature hm (Some rb) (Some (hmac_hex hm SHA512 secret rb)) (Some secret) = Inr True"
    using assms by (rule verify_signed)+
  have 3: "verifyLemonSignature hm (Some rb) (Some header) (Some secret) \<noteq> Inr True"
    if "header \<noteq> hmac_hex hm SHA256 secret rb"
    using that unfolding verifyLemon_True_iff by simp
  have 4: "verifyNowPaymentsSignature hm (Some rb) (Some header) (Some secret) \<noteq> Inr True"
    if "header \<noteq> hmac_hex hm SHA512 secret rb"
    using that unfolding verifyNow_True_iff by simp
  have 5: "verifyLemonSignature hm (Some rb) (Some header) (Some secret) = Inr False"
    if "header \<noteq> hmac_hex hm SHA256 secret rb" "length (Buffer_from header) = 64"
    using that by (intro verifyLemon_wrong_header) (simp_all add: len digest_length_def)
  have 6: "verifyNowPaymentsSignature hm (Some rb) (Some header) (Some secret) = Inr False"
    if "header \<noteq> hmac_hex hm SHA512 secret rb" "length (Buffer_from header) = 128"
    using that by (intro verifyNow_wrong_header) (simp_all add: len digest_length_def)
  have 7: "verifyLemonSignature hm (Some rb)
         (Some ((hmac_hex hm SHA256 secret rb)[i := flip_bit j (hmac_hex hm SHA256 secret rb ! i)]))
         (Some secret) = Inr False" if "i < 64" "j < 7"
    using that flipped_digest [of i "hmac_hex hm SHA256 secret rb" j]
    by (intro verifyLemon_wrong_header) (simp_all add: l256 ascii_hmac_hex)
  have 8: "verifyNowPaymentsSignature hm (Some rb)
         (Some ((hmac_hex hm SHA512 secret rb)[i := flip_bit j (hmac_hex hm SHA512 secret rb ! i)]))
         (Some secret) = Inr False" if "i < 128" "j < 7"
    using that flipped_digest [of i "hmac_hex hm SHA512 secret rb" j]
    by (intro verifyNow_wrong_header) (simp_all add: l512 ascii_hmac_hex)
  have 9: "verifyLemonSignature hm (Some rb') (Some (hmac_hex hm SHA256 secret rb)) (Some secret) = Inr False"
    if "hmac_hex hm SHA256 secret rb' \<noteq> hmac_hex hm SHA256 secret rb"
    using that by (intro verifyLemon_wrong_header) (simp_all add: len)
  have 10: "verifyNowPaymentsSignature hm (Some rb') (Some (hmac_hex hm SHA512 secret rb)) (Some secret) = Inr False"
    if "hmac_hex hm SHA512 secret rb' \<noteq> hmac_hex hm SHA512 secret rb"
    using that by (intro verifyNow_wrong_header) (simp_all add: len)
  from 1 2 3 4 5 6 7 8 9 10 show ?thesis by blast
qed


lemma Buffer_from_lit_s: "Buffer_from (lit ''s'') = [0x73]"
  by (simp add: lit_def Buffer_from_def utf8_encode_def utf8_encode1_def lone_unit_def
      is_high_surrogate_def is_low_surrogate_def)

lemma Buffer_from_lit_braces: "Buffer_from (lit ''{}'') = [0x7B, 0x7D]"
  by (simp add: lit_def Buffer_from_def utf8_encode_def utf8_encode1_def lone_unit_def
      is_high_surrogate_def is_low_surrogate_def)

lemma Buffer_from_lit_brackets: "Buffer_from (lit ''[]'') = [0x5B, 0x5D]"
  by (simp add: lit_def Buffer_from_def utf8_encode_def utf8_encode1_def lone_unit_def
      is_high_surrogate_def is_low_surrogate_def)

lemma sample_digest_braces:
  "take 4 (hmac_hex sample_hmac alg (lit ''s'') (lit ''{}'')) = lit ''737b''"
  by (cases alg; simp add: hmac_hex_def sample_hmac_def digest_length_def Buffer_from_lit_s
      Buffer_from_lit_braces; simp add: hex_def hex_digit_def lit_def)

lemma sample_digest_brackets:
  "take 4 (hmac_hex sample_hmac alg (lit ''s'') (lit ''[]'')) = lit ''735b''"
  by (cases alg; simp add: hmac_hex_def sample_hmac_def digest_length_def Buffer_from_lit_s
      Buffer_from_lit_brackets; simp add: hex_def hex_digit_def lit_def)

lemma sample_digests_differ:
  "hmac_hex sample_hmac alg (lit ''s'') (lit ''[]'') \<noteq> hmac_hex sample_hmac alg (lit ''s'') (lit ''{}'')"
proof
  assume "hmac_hex sample_hmac alg (lit ''s'') (lit ''[]'') = hmac_hex sample_hmac alg (lit ''s'') (lit ''{}'')"
  then have "lit ''735b'' = lit ''737b''"
    using sample_digest_braces [of alg] sample_digest_brackets [of alg] by simp
  then show False by (simp add: lit_def)
qed


text \<open>
  The sample digest, the body \<open>{}\<close>, the secret \<open>s\<close>, the signature of \<open>[]\<close> as the wrong
  header and \<open>[]\<close> as the mutated body.
\<close>

theorem signature_roundtrip_and_mutation_witness:
  "sized sample_hmac \<and> lit ''{}'' \<noteq> [] \<and> lit ''s'' \<noteq> []
 \<and> verifyLemonSignature sample_hmac (Some (lit ''{}''))
       (Some (hmac_hex sample_hmac SHA256 (lit ''s'') (lit ''{}''))) (Some (lit ''s'')) = Inr True
 \<and> verifyNowPaymentsSignature sample_hmac (Some (lit ''{}''))
       (Some (hmac_hex sample_hmac SHA512 (lit ''s'') (lit ''{}''))) (Some (lit ''s'')) = Inr True
 \<and> hmac_hex sample_hmac SHA256 (lit ''s'') (lit ''[]'') \<noteq> hmac_hex sample_hmac SHA256 (lit ''s'') (lit ''{}'')
 \<and> length (Buffer_from (hmac_hex sample_hmac SHA256 (lit ''s'') (lit ''[]''))) = 64
 \<and> verifyLemonSignature sample_hmac (Some (lit ''{}''))
       (Some (hmac_hex sample_hmac SHA256 (lit ''s'') (lit ''[]''))) (Some (lit ''s'')) = Inr False
 \<and> hmac_hex sample_hmac SHA512 (lit ''s'') (lit ''[]'') \<noteq> hmac_hex sample_hmac SHA512 (lit ''s'') (lit ''{}'')
 \<and> length (Buffer_from (hmac_hex sample_hmac SHA512 (lit ''s'') (lit ''[]''))) = 128
 \<and> verifyNowPaymentsSignature sample_hmac (Some (lit ''{}''))
       (Some (hmac_hex sample_hmac SHA512 (lit ''s'') (lit ''[]''))) (Some (lit ''s'')) = Inr False
 \<and> (0 :: nat) < 64 \<and> (0 :: nat) < 7
 \<and> verifyLemonSignature sample_hmac (Some (lit ''{}''))
       (Some ((hmac_hex sample_hmac SHA256 (lit ''s'') (lit ''{}''))
          [0 := flip_bit 0 (hmac_hex sample_hmac SHA256 (lit ''s'') (lit ''{}'') ! 0)]))
       (Some (lit ''s'')) = Inr False
 \<and> verifyNowPaymentsSignature sample_hmac (Some (lit ''{}''))
       (Some ((hmac_hex sample_hmac SHA512 (lit ''s'') (lit ''{}''))
          [0 := flip_bit 0 (hmac_hex sample_hmac SHA512 (lit ''s'') (lit ''{}'') ! 0)]))
       (Some (lit ''s'')) = Inr False
 \<and> verifyLemonSignature sample_hmac (Some (lit ''[]''))
       (Some (hmac_hex sample_hmac SHA256 (lit ''s'') (lit ''{}''))) (Some (lit ''s'')) = Inr False
 \<and> verifyNowPaymentsSignature sample_hmac (Some (lit ''[]''))
       (Some (hmac_hex sample_hmac SHA512 (lit ''s'') (lit ''{}''))) (Some (lit ''s'')) = Inr False"
proof -
  have b: "lit ''{}'' \<noteq> []" and s: "lit ''s'' \<noteq> []" by (simp_all add: lit_def)
  have l256: "length (Buffer_from (hmac_hex sample_hmac SHA256 (lit ''s'') (lit ''[]''))) = 64"
    and l512: "length (Buffer_from (hmac_hex sample_hmac SHA512 (lit ''s'') (lit ''[]''))) = 128"
    by (simp_all add: length_hmac_hex [OF sized_sample] digest_length_def)
  note d = sample_digests_differ
  from signature_roundtrip_and_mutation [OF sized_sample b s, where header = "hmac_hex sample_hmac SHA256 (lit ''s'') (lit ''[]'')"
      and i = 0 and j = 0 and rb' = "lit ''[]''"]
    signature_roundtrip_and_mutation [OF sized_sample b s, where header = "hmac_hex sample_hmac SHA512 (lit ''s'') (lit ''[]'')"
      and i = 0 and j = 0 and rb' = "lit ''[]''"]
    sized_sample b s l256 l512 d [of SHA256] d [of SHA512]
  show ?thesis by simp
qed

text \<open>
  Claim C3 as stated fails for the empty body: verification of the empty body against its
  own signature returns false.
\<close>

theorem empty_body_own_signature_rejected:
  "verifyLemonSignature sample_hmac (Some [])
      (Some (hmac_hex sample_hmac SHA256 (lit ''s'') [])) (Some (lit ''s'')) = Inr False
 \<and> verifyNowPaymentsSignature sample_hmac (Some [])
      (Some (hmac_hex sample_hmac SHA512 (lit ''s'') [])) (Some (lit ''s'')) = Inr False"
  by simp

text \<open>
  Claim C4. Every call of \<open>notifyOrder\<close> a handler makes is for a request whose raw body
  passed the verifier of that handler's provider: the header of that provider equals the
  hexadecimal digest of the raw body under that provider's algorithm (SHA-256 for
  LemonSqueezy, SHA-512 for NOWPayments) and secret, and the event handed to the notifier
  is the parse of that raw body.
\<close>

theorem notified_only_after_verification:
  "(\<forall>ord\<in>set (snd (lemonsqueezy_handler rt ev req)).
      \<exists>rb secret. rawBody req = Some rb \<and> LEMONSQUEEZY_SIGNING_SECRET ev = Some secret
        \<and> headers req ''x-signature'' = Some (hmac_hex (hmac rt) SHA256 secret rb)
        \<and> verifyLemonSignature (hmac rt) (Some rb)
             (Some (hmac_hex (hmac rt) SHA256 secret rb)) (Some secret) = Inr True
        \<and> JSON_parse rt rb = Some (raw ord))
 \<and> (\<forall>ord\<in>set (snd (nowpayments_handler rt ev req)).
      \<exists>rb secret. rawBody req = Some rb \<and> NOWPAYMENTS_IPN_SECRET ev = Some secret
        \<and> headers req ''x-nowpayments-sig'' = Some (hmac_hex (hmac rt) SHA512 secret rb)
        \<and> verifyNowPaymentsSignature (hmac rt) (Some rb)
             (Some (hmac_hex (hmac rt) SHA512 secret rb)) (Some secret) = Inr True
        \<and> JSON_parse rt rb = Some (raw ord))"
  using lemon_notified [of _ rt ev req] nowpayments_notified [of _ rt ev req] by blast

text \<open>The two signed sample requests that are notified.\<close>

theorem notified_only_after_verification_witness:
  "snd (lemonsqueezy_handler sample_runtime sample_env (signed_lemon created_body)) \<noteq> []
 \<and> (\<exists>ord rb secret. ord \<in> set (snd (lemonsqueezy_handler sample_runtime sample_env (signed_lemon created_body)))
       \<and> rawBody (signed_lemon created_body) = Some rb
       \<and> LEMONSQUEEZY_SIGNING_SECRET sample_env = Some secret
       \<and> headers (signed_lemon created_body) ''x-signature''
            = Some (hmac_hex (hmac sample_runtime) SHA256 secret rb)
       \<and> JSON_parse sample_runtime rb = Some (raw ord))
 \<and> snd (nowpayments_handler sample_runtime sample_env (signed_nowpayments finished_body)) \<noteq> []
 \<and> (\<exists>ord rb secret. ord \<in> set (snd (nowpayments_handler sample_runtime sample_env (signed_nowpayments finished_body)))
       \<and> rawBody (signed_nowpayments finished_body) = Some rb
       \<and> NOWPAYMENTS_IPN_SECRET sample_env = Some secret
       \<and> headers (signed_nowpayments finished_body) ''x-nowpayments-sig''
            = Some (hmac_hex (hmac sample_runtime) SHA512 secret rb)
       \<and> JSON_parse sample_runtime rb = Some (raw ord))"
proof -
  let ?l = "snd (lemonsqueezy_handler sample_runtime sample_env (signed_lemon created_body))"
  let ?n = "snd (nowpayments_handler sample_runtime sample_env (signed_nowpayments finished_body))"
  have l: "?l \<noteq> []" by (simp add: sample_lemon_created)
  have n: "?n \<noteq> []" by (simp add: sample_nowpayments_finished)
  from l obtain o1 where o1: "o1 \<in> set ?l" by (cases ?l) auto
  from n obtain o2 where o2: "o2 \<in> set ?n" by (cases ?n) auto
  from notified_only_after_verification [where rt = sample_runtime and ev = sample_env and req = "signed_lemon created_body"] o1
  have "\<exists>ord rb secret. ord \<in> set ?l
       \<and> rawBody (signed_lemon created_body) = Some rb
       \<and> LEMONSQUEEZY_SIGNING_SECRET sample_env = Some secret
       \<and> headers (signed_lemon created_body) ''x-signature''
            = Some (hmac_hex (hmac sample_runtime) SHA256 secret rb)
       \<and> JSON_parse sample_runtime rb = Some (raw ord)"
    by blast
  moreover
  from notified_only_after_verification [where rt = sample_runtime and ev = sample_env and req = "signed_nowpayments finished_body"] o2
  have "\<exists>ord rb secret. ord \<in> set ?n
       \<and> rawBody (signed_nowpayments finished_body) = Some rb
       \<and> NOWPAYMENTS_IPN_SECRET sample_env = Some secret
       \<and> headers (signed_nowpayments finished_body) ''x-nowpayments-sig''
            = Some (hmac_hex (hmac sample_runtime) SHA512 secret rb)
       \<and> JSON_parse sample_runtime rb = Some (raw ord)"
    by blast
  ultimately show ?thesis using l n by blast
qed

section \<open>The captured body and the inbound bytes\<close>

lemma of_nat8_eq_iff: "n < 256 \<Longrightarrow> m < 256 \<Longrightarrow> (of_nat n :: byte) = of_nat m \<longleftrightarrow> n = m"
  by (metis unat_of_nat8)

lemma of_nat8_eq_numeral:
  "n < 256 \<Longrightarrow> (of_nat n :: byte) = 0xE0 \<longleftrightarrow> n = 0xE0"
  "n < 256 \<Longrightarrow> (of_nat n :: byte) = 0xED \<longleftrightarrow> n = 0xED"
  "n < 256 \<Longrightarrow> (of_nat n :: byte) = 0xF0 \<longleftrightarrow> n = 0xF0"
  "n < 256 \<Longrightarrow> (of_nat n :: byte) = 0xF4 \<longleftrightarrow> n = 0xF4"
  using of_nat8_eq_iff [of n 224] of_nat8_eq_iff [of n 237] of_nat8_eq_iff [of n 240]
    of_nat8_eq_iff [of n 244]
  by simp_all

text \<open>One step of the decoder, on the value of the byte.\<close>

lemma utf8_dec_step:
  assumes "n < 256"
  shows "utf8_dec needed cp lo hi (of_nat n # bs) =
     (if needed = 0 then
        (if n \<le> 0x7F then n # utf8_dec 0 0 0x80 0xBF bs
         else if 0xC2 \<le> n \<and> n \<le> 0xDF then utf8_dec 1 (n mod 32) 0x80 0xBF bs
         else if 0xE0 \<le> n \<and> n \<le> 0xEF then
           utf8_dec 2 (n mod 16) (if n = 0xE0 then 0xA0 else 0x80)
             (if n = 0xED then 0x9F else 0xBF) bs
         else if 0xF0 \<le> n \<and> n \<le> 0xF4 then
           utf8_dec 3 (n mod 8) (if n = 0xF0 then 0x90 else 0x80)
             (if n = 0xF4 then 0x8F else 0xBF) bs
         else 0xFFFD # utf8_dec 0 0 0x80 0xBF bs)
      else if \<not> (unat lo \<le> n \<and> n \<le> unat hi) then
        0xFFFD # utf8_dec 0 0 0x80 0xBF (of_nat n # bs)
      else if needed = 1 then (cp * 64 + n mod 64) # utf8_dec 0 0 0x80 0xBF bs
      else utf8_dec (needed - 1) (cp * 64 + n mod 64) 0x80 0xBF bs)"
  using assms
  by (simp add: word_le_nat_alt unat_of_nat8 of_nat8_eq_numeral del: utf8_dec.simps)
    (simp add: word_le_nat_alt unat_of_nat8 of_nat8_eq_numeral)



lemma lead_mod_aux: "q < n \<Longrightarrow> (k * n + q) mod n = (q :: nat)"
  by simp

lemma lead_mod:
  "q < 32 \<Longrightarrow> (0xC0 + q) mod 32 = (q :: nat)"
  "q < 16 \<Longrightarrow> (0xE0 + q) mod 16 = q"
  "q < 8 \<Longrightarrow> (0xF0 + q) mod 8 = q"
  "q < 64 \<Longrightarrow> (0x80 + q) mod 64 = q"
  using lead_mod_aux [of q 32 6] lead_mod_aux [of q 16 14] lead_mod_aux [of q 8 30]
    lead_mod_aux [of q 64 2]
  by simp_all

lemma digits64:
  fixes cp :: nat
  shows "cp = cp div 64 * 64 + cp mod 64"
    and "cp div 64 = cp div 4096 * 64 + cp div 64 mod 64"
    and "cp div 4096 = cp div 262144 * 64 + cp div 4096 mod 64"
proof -
  show "cp = cp div 64 * 64 + cp mod 64" by simp
  have "cp div 64 div 64 = cp div (64 * 64)" by (rule div_mult2_eq [symmetric])
  then have "cp div 4096 = cp div 64 div 64" by simp
  then show "cp div 64 = cp div 4096 * 64 + cp div 64 mod 64" by simp
  have "cp div 4096 div 64 = cp div (4096 * 64)" by (rule div_mult2_eq [symmetric])
  then have "cp div 262144 = cp div 4096 div 64" by simp
  then show "cp div 4096 = cp div 262144 * 64 + cp div 4096 mod 64" by simp
qed

lemma utf8_dec_encode1_1:
  assumes "cp < 0x80"
  shows "utf8_dec 0 0 0x80 0xBF (utf8_encode1 cp @ bs) = cp # utf8_dec 0 0 0x80 0xBF bs"
proof -
  have "utf8_encode1 cp = [of_nat cp]" using assms by (simp add: utf8_encode1_def)
  with assms show ?thesis by (simp add: utf8_dec_step del: utf8_dec.simps)
qed

lemma utf8_dec_encode1_2:
  assumes "0x80 \<le> cp" "cp < 0x800"
  shows "utf8_dec 0 0 0x80 0xBF (utf8_encode1 cp @ bs) = cp # utf8_dec 0 0 0x80 0xBF bs"
proof -
  define q where "q = cp div 64"
  define d where "d = cp mod 64"
  have cp: "cp = q * 64 + d" and d: "d < 64" by (simp_all add: q_def d_def)
  with assms have q: "2 \<le> q" "q < 32" by linarith+
  have e: "utf8_encode1 cp = [of_nat (0xC0 + q), of_nat (0x80 + d)]"
    using assms by (simp add: utf8_encode1_def q_def d_def del: of_nat_add of_nat_numeral)
  have s1: "utf8_dec 0 0 0x80 0xBF (of_nat (0xC0 + q) # of_nat (0x80 + d) # bs)
      = utf8_dec 1 q 0x80 0xBF (of_nat (0x80 + d) # bs)"
    using q by (subst utf8_dec_step) (simp_all add: lead_mod del: utf8_dec.simps)
  have s2: "utf8_dec 1 q 0x80 0xBF (of_nat (0x80 + d) # bs) = (q * 64 + d) # utf8_dec 0 0 0x80 0xBF bs"
    using d by (subst utf8_dec_step) (simp_all add: lead_mod del: utf8_dec.simps)
  show ?thesis unfolding e using s1 s2 cp by simp
qed


lemma digits3:
  fixes cp :: nat
  assumes "cp = (q * 64 + d2) * 64 + d3" "d2 < 64" "d3 < 64" "0x800 \<le> cp" "cp < 0x10000"
    "cp < 0xD800 \<or> 0xDFFF < cp"
  shows "q < 16" "q = 0 \<Longrightarrow> 32 \<le> d2" "q = 13 \<Longrightarrow> d2 < 32"
proof -
  from assms(1) have "cp = q * 4096 + d2 * 64 + d3" by (simp add: algebra_simps)
  with assms(2-) show "q < 16" "q = 0 \<Longrightarrow> 32 \<le> d2" "q = 13 \<Longrightarrow> d2 < 32" by linarith+
qed

lemma digits4:
  fixes cp :: nat
  assumes "cp = ((q * 64 + d2) * 64 + d3) * 64 + d4" "d2 < 64" "d3 < 64" "d4 < 64"
    "0x10000 \<le> cp" "cp < 0x110000"
  shows "q < 5" "q = 0 \<Longrightarrow> 16 \<le> d2" "q = 4 \<Longrightarrow> d2 < 16"
proof -
  from assms(1) have "cp = q * 262144 + d2 * 4096 + d3 * 64 + d4" by (simp add: algebra_simps)
  with assms(2-) show "q < 5" "q = 0 \<Longrightarrow> 16 \<le> d2" "q = 4 \<Longrightarrow> d2 < 16" by linarith+
qed

lemma utf8_dec_encode1_3:
  assumes "0x800 \<le> cp" "cp < 0x10000" "cp < 0xD800 \<or> 0xDFFF < cp"
  shows "utf8_dec 0 0 0x80 0xBF (utf8_encode1 cp @ bs) = cp # utf8_dec 0 0 0x80 0xBF bs"
proof -
  define q where "q = cp div 4096"
  define d2 where "d2 = cp div 64 mod 64"
  define d3 where "d3 = cp mod 64"
  have cp: "cp = (q * 64 + d2) * 64 + d3"
    using digits64(1,2) [of cp] by (simp add: q_def d2_def d3_def)
  have d: "d2 < 64" "d3 < 64" by (simp_all add: d2_def d3_def)
  note b = digits3 [OF cp d assms]
  note q = b(1) and lo = b(2) and hi = b(3)
  have e: "utf8_encode1 cp = [of_nat (0xE0 + q), of_nat (0x80 + d2), of_nat (0x80 + d3)]"
    using assms by (simp add: utf8_encode1_def q_def d2_def d3_def del: of_nat_add of_nat_numeral)
  have s1: "utf8_dec 0 0 0x80 0xBF (of_nat (0xE0 + q) # of_nat (0x80 + d2) # of_nat (0x80 + d3) # bs)
      = utf8_dec 2 q (if q = 0 then 0xA0 else 0x80) (if q = 13 then 0x9F else 0xBF)
          (of_nat (0x80 + d2) # of_nat (0x80 + d3) # bs)"
    using q by (subst utf8_dec_step) (simp_all add: lead_mod del: utf8_dec.simps)
  have s2: "utf8_dec 2 q (if q = 0 then 0xA0 else 0x80) (if q = 13 then 0x9F else 0xBF)
          (of_nat (0x80 + d2) # of_nat (0x80 + d3) # bs)
      = utf8_dec 1 (q * 64 + d2) 0x80 0xBF (of_nat (0x80 + d3) # bs)"
  proof -
    consider "q = 0" "32 \<le> d2" | "q = 13" "d2 < 32" | "q \<noteq> 0" "q \<noteq> 13"
      using lo hi by blast
    then show ?thesis
      using d by cases (subst utf8_dec_step; simp add: lead_mod del: utf8_dec.simps)+
  qed
  have s3: "utf8_dec 1 (q * 64 + d2) 0x80 0xBF (of_nat (0x80 + d3) # bs)
      = ((q * 64 + d2) * 64 + d3) # utf8_dec 0 0 0x80 0xBF bs"
    using d by (subst utf8_dec_step) (simp_all add: lead_mod del: utf8_dec.simps)
  show ?thesis unfolding e using s1 s2 s3 cp by simp
qed

lemma utf8_dec_encode1_4:
  assumes "0x10000 \<le> cp" "cp < 0x110000"
  shows "utf8_dec 0 0 0x80 0xBF (utf8_encode1 cp @ bs) = cp # utf8_dec 0 0 0x80 0xBF bs"
proof -
  define q where "q = cp div 262144"
  define d2 where "d2 = cp div 4096 mod 64"
  define d3 where "d3 = cp div 64 mod 64"
  define d4 where "d4 = cp mod 64"
  have cp: "cp = ((q * 64 + d2) * 64 + d3) * 64 + d4"
    using digits64 [of cp] by (simp add: q_def d2_def d3_def d4_def)
  have d: "d2 < 64" "d3 < 64" "d4 < 64" by (simp_all add: d2_def d3_def d4_def)
  note b = digits4 [OF cp d assms]
  note q = b(1) and lo = b(2) and hi = b(3)
  have e: "utf8_encode1 cp =
      [of_nat (0xF0 + q), of_nat (0x80 + d2), of_nat (0x80 + d3), of_nat (0x80 + d4)]"
    using assms by (simp add: utf8_encode1_def q_def d2_def d3_def d4_def
        del: of_nat_add of_nat_numeral)
  let ?r2 = "of_nat (0x80 + d2) # of_nat (0x80 + d3) # of_nat (0x80 + d4) # bs"
  let ?r3 = "of_nat (0x80 + d3) # of_nat (0x80 + d4) # bs"
  let ?r4 = "of_nat (0x80 + d4) # bs"
  have s1: "utf8_dec 0 0 0x80 0xBF (of_nat (0xF0 + q) # ?r2)
      = utf8_dec 3 q (if q = 0 then 0x90 else 0x80) (if q = 4 then 0x8F else 0xBF) ?r2"
    using q by (subst utf8_dec_step) (simp_all add: lead_mod del: utf8_dec.simps)
  have s2: "utf8_dec 3 q (if q = 0 then 0x90 else 0x80) (if q = 4 then 0x8F else 0xBF) ?r2
      = utf8_dec 2 (q * 64 + d2) 0x80 0xBF ?r3"
  proof -
    consider "q = 0" "16 \<le> d2" | "q = 4" "d2 < 16" | "q \<noteq> 0" "q \<noteq> 4"
      using lo hi by blast
    then show ?thesis
      using d by cases (subst utf8_dec_step; simp add: lead_mod del: utf8_dec.simps)+
  qed
  have s3: "utf8_dec 2 (q * 64 + d2) 0x80 0xBF ?r3
      = utf8_dec 1 ((q * 64 + d2) * 64 + d3) 0x80 0xBF ?r4"
    using d by (subst utf8_dec_step) (simp_all add: lead_mod del: utf8_dec.simps)
  have s4: "utf8_dec 1 ((q * 64 + d2) * 64 + d3) 0x80 0xBF ?r4
      = (((q * 64 + d2) * 64 + d3) * 64 + d4) # utf8_dec 0 0 0x80 0xBF bs"
    using d by (subst utf8_dec_step) (simp_all add: lead_mod del: utf8_dec.simps)
  show ?thesis unfolding e using s1 s2 s3 s4 cp by simp
qed

lemma utf8_dec_encode1:
  assumes "scalar_value cp"
  shows "utf8_dec 0 0 0x80 0xBF (utf8_encode1 cp @ bs) = cp # utf8_dec 0 0 0x80 0xBF bs"
proof -
  from assms have lt: "cp < 0x110000" and ns: "cp < 0xD800 \<or> 0xDFFF < cp"
    by (auto simp: scalar_value_def)
  consider "cp < 0x80" | "0x80 \<le> cp" "cp < 0x800" | "0x800 \<le> cp" "cp < 0x10000"
    | "0x10000 \<le> cp"
    by linarith
  then show ?thesis
    using lt ns
    by cases (simp_all only: utf8_dec_encode1_1 utf8_dec_encode1_2 utf8_dec_encode1_3
        utf8_dec_encode1_4)
qed

lemma utf8_decode_encode:
  "\<forall>cp\<in>set cps. scalar_value cp \<Longrightarrow> utf8_decode (utf8_encode cps) = cps"
  unfolding utf8_decode_def utf8_encode_def
  by (induction cps) (simp_all add: utf8_dec_encode1 del: utf8_dec.simps(2))


lemma utf16_decode_encode1:
  assumes "scalar_value cp"
  shows "utf16_decode (utf16_encode1 cp @ r) = cp # utf16_decode r"
proof (cases "cp < 0x10000")
  case True
  with assms have u: "unat (of_nat cp :: code_unit) = cp" "cp < 0xD800 \<or> 0xDFFF < cp"
    by (auto simp: unat_of_nat16 scalar_value_def)
  then have ns: "\<not> is_high_surrogate (of_nat cp)" "\<not> is_low_surrogate (of_nat cp)"
    by (auto simp: is_high_surrogate_def is_low_surrogate_def word_le_nat_alt)
  then have "lone_unit (of_nat cp) = cp" by (simp add: lone_unit_def u)
  with ns True show ?thesis by (cases r) (simp_all add: utf16_encode1_def)
next
  case False
  define x where "x = cp - 0x10000"
  define h where "h = 0xD800 + x div 1024"
  define l where "l = 0xDC00 + x mod 1024"
  from False assms have x: "x < 0x100000" "cp = 0x10000 + x"
    by (simp_all add: x_def scalar_value_def)
  then have "x div 1024 < 1024" by simp
  then have h: "0xD800 \<le> h" "h \<le> 0xDBFF" by (simp_all add: h_def)
  have l: "0xDC00 \<le> l" "l \<le> 0xDFFF" by (simp_all add: l_def)
  have uh: "unat (of_nat h :: code_unit) = h" and ul: "unat (of_nat l :: code_unit) = l"
    using h l by (simp_all add: unat_of_nat16)
  have e: "utf16_encode1 cp = [of_nat h, of_nat l]"
    using False by (simp add: utf16_encode1_def h_def l_def x_def del: of_nat_add of_nat_numeral)
  have hi: "is_high_surrogate (of_nat h)" and lo: "is_low_surrogate (of_nat l)"
    using h l by (simp_all add: is_high_surrogate_def is_low_surrogate_def word_le_nat_alt uh ul)
  have "0x10000 + (h - 0xD800) * 1024 + (l - 0xDC00) = cp"
    using x by (simp add: h_def l_def)
  with hi lo show ?thesis unfolding e by (simp add: uh ul del: of_nat_add of_nat_numeral)
qed

lemma utf16_decode_encode:
  "\<forall>cp\<in>set cps. scalar_value cp \<Longrightarrow> utf16_decode (utf16_encode cps) = cps"
  unfolding utf16_encode_def
  by (induction cps) (simp_all add: utf16_decode_encode1)

lemma Buffer_from_toString_utf8:
  "\<forall>cp\<in>set cps. scalar_value cp \<Longrightarrow> Buffer_from (toString_utf8 (utf8_encode cps)) = utf8_encode cps"
  by (simp add: Buffer_from_def toString_utf8_def utf8_decode_encode utf16_decode_encode)

lemma utf8_encode_nonempty: "cps \<noteq> [] \<Longrightarrow> utf8_encode cps \<noteq> []"
  by (cases cps) (simp_all add: utf8_encode_def utf8_encode1_def)

text \<open>
  The capture stores the body decoded as UTF-8, and the digest is computed over the UTF-8
  encoding of that string. For every non-empty body that is well-formed UTF-8 (the
  encoding of a sequence of Unicode scalar values) the bytes the digest is computed over
  are exactly the inbound bytes.
\<close>

lemma captured_body_reencodes:
  assumes "\<forall>cp\<in>set cps. scalar_value cp" and "cps \<noteq> []"
  shows "\<exists>s. rawBody (capture hs (Some (utf8_encode cps))) = Some s
           \<and> Buffer_from s = utf8_encode cps
           \<and> hmac_hex hm alg secret s = hex (hm alg (Buffer_from secret) (utf8_encode cps))"
  using assms
  by (simp add: capture_def rawBodySaver_def utf8_encode_nonempty hmac_hex_def
      Buffer_from_toString_utf8)

lemma sample_utf8:
  "utf8_encode [0x7B, 0xE9, 0x20AC, 0x1F600, 0x7D] =
     [0x7B, 0xC3, 0xA9, 0xE2, 0x82, 0xAC, 0xF0, 0x9F, 0x98, 0x80, 0x7D]"
  by (simp add: utf8_encode_def utf8_encode1_def)

text \<open>A body with sequences of one, two, three and four bytes.\<close>

lemma captured_body_reencodes_sample:
  "scalar_value 0x7B \<and> scalar_value 0xE9 \<and> scalar_value 0x20AC \<and> scalar_value 0x1F600
 \<and> scalar_value 0x7D
 \<and> (\<exists>s. rawBody (capture Map.empty
             (Some [0x7B, 0xC3, 0xA9, 0xE2, 0x82, 0xAC, 0xF0, 0x9F, 0x98, 0x80, 0x7D])) = Some s
       \<and> Buffer_from s = [0x7B, 0xC3, 0xA9, 0xE2, 0x82, 0xAC, 0xF0, 0x9F, 0x98, 0x80, 0x7D])"
proof -
  have a: "\<forall>cp\<in>set [0x7B, 0xE9, 0x20AC, 0x1F600, 0x7D]. scalar_value cp"
    by (simp add: scalar_value_def)
  have b: "[0x7B, 0xE9, 0x20AC, 0x1F600, 0x7D] \<noteq> ([] :: nat list)" by simp
  from a have c: "scalar_value 0x7B \<and> scalar_value 0xE9 \<and> scalar_value 0x20AC
      \<and> scalar_value 0x1F600 \<and> scalar_value 0x7D"
    by simp
  from captured_body_reencodes [OF a b, of Map.empty] c show ?thesis
    unfolding sample_utf8 by blast
qed

text \<open>The sample digests of the byte \<open>FF\<close> and of the bytes \<open>EF BF BD\<close>.\<close>

lemma Buffer_from_lit_secret:
  "Buffer_from (lit ''ls-secret'') = [0x6C, 0x73, 0x2D, 0x73, 0x65, 0x63, 0x72, 0x65, 0x74]"
  by (simp add: lit_def Buffer_from_def utf8_encode_def utf8_encode1_def lone_unit_def
      is_high_surrogate_def is_low_surrogate_def)

lemma Buffer_from_replacement: "Buffer_from [0xFFFD] = [0xEF, 0xBF, 0xBD]"
  by (simp add: Buffer_from_def utf8_encode_def utf8_encode1_def lone_unit_def
      is_high_surrogate_def is_low_surrogate_def)

lemma capture_FF: "capture hs (Some [0xFF]) = \<lparr>headers = hs, rawBody = Some [0xFFFD]\<rparr>"
  by (simp add: capture_def rawBodySaver_def toString_utf8_def utf8_decode_def utf16_encode_def
      utf16_encode1_def)

lemma sample_digest_FF:
  "take 20 (hex (sample_hmac SHA256 (Buffer_from (lit ''ls-secret'')) [0xFF]))
     = lit ''6c732d736563726574ff''"
  by (simp add: sample_hmac_def digest_length_def Buffer_from_lit_secret;
      simp add: hex_def hex_digit_def lit_def)

lemma sample_digest_replacement:
  "take 20 (hmac_hex sample_hmac SHA256 (lit ''ls-secret'') [0xFFFD])
     = lit ''6c732d736563726574ef''"
  by (simp add: hmac_hex_def sample_hmac_def digest_length_def Buffer_from_lit_secret
      Buffer_from_replacement; simp add: hex_def hex_digit_def lit_def)

lemma signed_FF_rejected:
  "verifyLemonSignature sample_hmac (Some [0xFFFD])
     (Some (hex (sample_hmac SHA256 (Buffer_from (lit ''ls-secret'')) [0xFF])))
     (Some (lit ''ls-secret'')) = Inr False"
proof (rule verifyLemon_wrong_header)
  show "hex (sample_hmac SHA256 (Buffer_from (lit ''ls-secret'')) [0xFF])
      \<noteq> hmac_hex sample_hmac SHA256 (lit ''ls-secret'') [0xFFFD]"
  proof
    assume "hex (sample_hmac SHA256 (Buffer_from (lit ''ls-secret'')) [0xFF])
      = hmac_hex sample_hmac SHA256 (lit ''ls-secret'') [0xFFFD]"
    then have "lit ''6c732d736563726574ff'' = lit ''6c732d736563726574ef''"
      using sample_digest_FF sample_digest_replacement by simp
    then show False by (simp add: lit_def)
  qed
  show "length (Buffer_from (hex (sample_hmac SHA256 (Buffer_from (lit ''ls-secret'')) [0xFF])))
      = length (Buffer_from (hmac_hex sample_hmac SHA256 (lit ''ls-secret'') [0xFFFD]))"
    using sized_sample by (simp add: hmac_hex_def length_Buffer_from_hex sized_def)
qed

text \<open>
  Claim C2. The captured body is not always the inbound body byte for byte: the capture
  decodes the buffer as UTF-8, so a body that is not well-formed UTF-8 is changed. The
  single byte \<open>FF\<close> is captured as U+FFFD and the digest is computed over the three bytes
  \<open>EF BF BD\<close>; a LemonSqueezy request with that body and with the keyed digest of the
  byte \<open>FF\<close> in its header, as the provider signed it, is answered 400.
\<close>

theorem invalid_utf8_body_changed:
  "rawBody (capture Map.empty (Some [0xFF])) = Some [0xFFFD]
 \<and> Buffer_from [0xFFFD] = [0xEF, 0xBF, 0xBD]
 \<and> lemonsqueezy_handler sample_runtime sample_env
      (capture [''x-signature'' \<mapsto> hex (sample_hmac SHA256 (Buffer_from (lit ''ls-secret'')) [0xFF])]
         (Some [0xFF]))
      = (\<lparr>status = 400, body = ''Invalid LemonSqueezy signature''\<rparr>, [])"
proof (intro conjI)
  show "rawBody (capture Map.empty (Some [0xFF])) = Some [0xFFFD]"
    by (simp add: capture_FF)
  show "Buffer_from [0xFFFD] = [0xEF, 0xBF, 0xBD]"
    by (rule Buffer_from_replacement)
  show "lemonsqueezy_handler sample_runtime sample_env
      (capture [''x-signature'' \<mapsto> hex (sample_hmac SHA256 (Buffer_from (lit ''ls-secret'')) [0xFF])]
         (Some [0xFF]))
      = (\<lparr>status = 400, body = ''Invalid LemonSqueezy signature''\<rparr>, [])"
    using signed_FF_rejected
    by (intro rejected_400(1))
      (simp add: capture_FF sample_runtime_def sample_env_def del: verifyLemonSignature.simps)
qed


section \<open>Order extraction\<close>

lemma get_or_empty: "get (or_else v (Obj [])) k = get v k"
  by (cases v) (simp_all add: or_else_def)

text \<open>The LemonSqueezy extraction, on the paths of the event.\<close>

lemma lemon_order_paths:
  "lemon_order co evt =
     (case ToNumber co (nullish (attribute evt ''total'') (Num (Fin 0))) of
        Inl e \<Rightarrow> Inl e
      | Inr n \<Rightarrow>
          Inr \<lparr>buyerEmail = or_else (or_else (attribute evt ''user_email'')
                                         (attribute evt ''customer_email'')) Null,
               websiteType = or_else (or_else (get (attribute evt ''custom'') ''websiteType'')
                                          (custom_data evt ''websiteType''))
                                 (Str (lit ''unknown'')),
               amount = Num (div100 n),
               currency = or_else (attribute evt ''currency'') (Str (lit ''USD'')),
               raw = evt\<rparr>)"
proof -
  have "get (or_else (get (or_else (get evt ''data'') (Obj [])) ''attributes'') (Obj [])) k
      = attribute evt k" for k
    by (simp add: get_or_empty attribute_def)
  then show ?thesis
    by (simp add: lemon_order_def Let_def custom_data_def split: sum.splits)
qed

lemma ToNumber_Inl:
  "ToNumber co v = Inl e \<Longrightarrow> e = TypeError \<and> co v = None \<and> (\<exists>s xs kvs. v = Str s \<or> v = Arr xs \<or> v = Obj kvs)"
  by (cases v) (auto split: option.splits)

subsection \<open>The pattern \<open>type=(\w+)\<close>\<close>










subsection \<open>Fields of the orders\<close>

lemma lemon_order_present:
  assumes "ToNumber co (nullish (attribute evt ''total'') (Num (Fin 0))) = Inr n"
  shows "lemon_order co evt =
     Inr \<lparr>buyerEmail = or_else (or_else (attribute evt ''user_email'')
                                    (attribute evt ''customer_email'')) Null,
          websiteType = or_else (or_else (get (attribute evt ''custom'') ''websiteType'')
                                     (custom_data evt ''websiteType''))
                            (Str (lit ''unknown'')),
          amount = Num (div100 n),
          currency = or_else (attribute evt ''currency'') (Str (lit ''USD'')),
          raw = evt\<rparr>"
  using assms by (simp add: lemon_order_paths)

lemma div100_zero: "div100 (Fin 0) = Fin 0"
  by (simp add: to_double_def)

lemma lemon_order_Inl:
  assumes "lemon_order co evt = Inl e"
  shows "e = TypeError \<and> co (attribute evt ''total'') = None
       \<and> attribute evt ''total'' \<noteq> Undefined \<and> attribute evt ''total'' \<noteq> Null"
proof -
  from assms have t: "ToNumber co (nullish (attribute evt ''total'') (Num (Fin 0))) = Inl e"
    by (simp add: lemon_order_paths split: sum.splits)
  then have n: "attribute evt ''total'' \<noteq> Undefined \<and> attribute evt ''total'' \<noteq> Null"
    by (auto simp: nullish_def)
  with t have "ToNumber co (attribute evt ''total'') = Inl e" by (simp add: nullish_def)
  from ToNumber_Inl [OF this] n show ?thesis by simp
qed

text \<open>
  Claim C6, as the code has it. Extraction does not throw on a missing field: the
  LemonSqueezy extraction returns an order whenever \<open>total\<close> is absent, and it throws only a
  TypeError for a \<open>total\<close> that is present and has no number; the NOWPayments extraction
  always returns an order. An absent buyer email is null, an absent currency \<open>USD\<close>, an
  absent website type \<open>unknown\<close> and an absent LemonSqueezy total the amount 0. The
  NOWPayments amount has no default: it is undefined when \<open>price_amount\<close> is absent.
\<close>

theorem extraction_defaults:
  "(attribute evt ''total'' = Undefined \<longrightarrow>
      (\<exists>ord. lemon_order co evt = Inr ord \<and> amount ord = Num (Fin 0)))
 \<and> (lemon_order co evt = Inl e \<longrightarrow>
      e = TypeError \<and> co (attribute evt ''total'') = None \<and> attribute evt ''total'' \<noteq> Undefined)
 \<and> (lemon_order co evt = Inr ord \<longrightarrow>
      (attribute evt ''user_email'' = Undefined \<and> attribute evt ''customer_email'' = Undefined \<longrightarrow>
         buyerEmail ord = Null)
    \<and> (attribute evt ''currency'' = Undefined \<longrightarrow> currency ord = Str (lit ''USD''))
    \<and> (get (attribute evt ''custom'') ''websiteType'' = Undefined
         \<and> custom_data evt ''websiteType'' = Undefined \<longrightarrow>
         websiteType ord = Str (lit ''unknown'')))
 \<and> (get pay ''customer_email'' = Undefined \<longrightarrow> buyerEmail (nowpayments_order pay) = Null)
 \<and> (get pay ''price_currency'' = Undefined \<longrightarrow>
      currency (nowpayments_order pay) = Str (lit ''USD''))
 \<and> (get pay ''order_description'' = Undefined \<longrightarrow>
      websiteType (nowpayments_order pay) = Str (lit ''unknown''))
 \<and> (get pay ''price_amount'' = Undefined \<longrightarrow> amount (nowpayments_order pay) = Undefined)"
proof (intro conjI impI)
  assume "attribute evt ''total'' = Undefined"
  then have "ToNumber co (nullish (attribute evt ''total'') (Num (Fin 0))) = Inr (Fin 0)"
    by (simp add: nullish_def)
  from lemon_order_present [OF this]
  show "\<exists>ord. lemon_order co evt = Inr ord \<and> amount ord = Num (Fin 0)"
    by (simp add: div100_zero del: div100.simps)
next
  assume "lemon_order co evt = Inl e"
  from lemon_order_Inl [OF this]
  show "e = TypeError" "co (attribute evt ''total'') = None" "attribute evt ''total'' \<noteq> Undefined"
    by simp_all
next
  assume o: "lemon_order co evt = Inr ord"
  then obtain n where ord: "ord =
     \<lparr>buyerEmail = or_else (or_else (attribute evt ''user_email'')
                                    (attribute evt ''customer_email'')) Null,
          websiteType = or_else (or_else (get (attribute evt ''custom'') ''websiteType'')
                                     (custom_data evt ''websiteType''))
                            (Str (lit ''unknown'')),
          amount = Num (div100 n),
          currency = or_else (attribute evt ''currency'') (Str (lit ''USD'')),
          raw = evt\<rparr>"
    by (auto simp: lemon_order_paths split: sum.splits)
  { assume "attribute evt ''user_email'' = Undefined \<and> attribute evt ''customer_email'' = Undefined"
    then show "buyerEmail ord = Null" by (simp add: ord or_else_def) }
  { assume "attribute evt ''currency'' = Undefined"
    then show "currency ord = Str (lit ''USD'')" by (simp add: ord or_else_def) }
  { assume "get (attribute evt ''custom'') ''websiteType'' = Undefined
         \<and> custom_data evt ''websiteType'' = Undefined"
    then show "websiteType ord = Str (lit ''unknown'')" by (simp add: ord or_else_def) }
next
  assume "get pay ''customer_email'' = Undefined"
  then show "buyerEmail (nowpayments_order pay) = Null"
    by (simp add: nowpayments_order_def or_else_def)
next
  assume "get pay ''price_currency'' = Undefined"
  then show "currency (nowpayments_order pay) = Str (lit ''USD'')"
    by (simp add: nowpayments_order_def or_else_def)
next
  assume "get pay ''order_description'' = Undefined"
  then show "websiteType (nowpayments_order pay) = Str (lit ''unknown'')"
    by (simp add: nowpayments_order_def nowpayments_websiteType_def)
next
  assume "get pay ''price_amount'' = Undefined"
  then show "amount (nowpayments_order pay) = Undefined"
    by (simp add: nowpayments_order_def)
qed


subsection \<open>Defaults, amounts and website types\<close>

lemma empty_event_absent:
  "attribute (Obj []) k = Undefined" "custom_data (Obj []) k = Undefined"
  "get (attribute (Obj []) k) k' = Undefined" "get (Obj []) k = Undefined"
  by (simp_all add: attribute_def custom_data_def)

lemma empty_event_order:
  "lemon_order sample_coerce (Obj []) =
     Inr \<lparr>buyerEmail = Null, websiteType = Str (lit ''unknown''), amount = Num (Fin 0),
          currency = Str (lit ''USD''), raw = Obj []\<rparr>"
  by (simp add: lemon_order_paths empty_event_absent nullish_def or_else_def div100_zero
      del: div100.simps)

lemma unconvertible_total:
  "attribute unconvertible_event ''total'' =
     Obj [(lit ''valueOf'', Num (Fin 1)), (lit ''toString'', Num (Fin 1))]"
  by (simp add: attribute_def unconvertible_event_def lit_def)

lemma unconvertible_order: "lemon_order sample_coerce unconvertible_event = Inl TypeError"
  by (simp add: lemon_order_paths unconvertible_total nullish_def sample_coerce_def)

text \<open>
  The empty event, where every field is absent, and an event whose \<open>total\<close> is an object
  without a primitive value.
\<close>

theorem extraction_defaults_witness:
  "attribute (Obj []) ''total'' = Undefined
 \<and> lemon_order sample_coerce (Obj []) =
      Inr \<lparr>buyerEmail = Null, websiteType = Str (lit ''unknown''), amount = Num (Fin 0),
           currency = Str (lit ''USD''), raw = Obj []\<rparr>
 \<and> lemon_order sample_coerce unconvertible_event = Inl TypeError
 \<and> sample_coerce (attribute unconvertible_event ''total'') = None
 \<and> nowpayments_order (Obj []) =
      \<lparr>buyerEmail = Null, websiteType = Str (lit ''unknown''), amount = Undefined,
       currency = Str (lit ''USD''), raw = Obj []\<rparr>"
proof -
  let ?o = "\<lparr>buyerEmail = Null, websiteType = Str (lit ''unknown''), amount = Num (Fin 0),
           currency = Str (lit ''USD''), raw = Obj []\<rparr>"
  note a = extraction_defaults [where evt = "Obj []" and co = sample_coerce and ord = ?o
      and pay = "Obj []"]
  note b = extraction_defaults [where evt = unconvertible_event and co = sample_coerce
      and e = TypeError]
  from a have n: "buyerEmail (nowpayments_order (Obj [])) = Null"
    "currency (nowpayments_order (Obj [])) = Str (lit ''USD'')"
    "websiteType (nowpayments_order (Obj [])) = Str (lit ''unknown'')"
    "amount (nowpayments_order (Obj [])) = Undefined"
    by (simp_all add: empty_event_absent)
  have "raw (nowpayments_order (Obj [])) = Obj []" by (simp add: nowpayments_order_def)
  with n have np: "nowpayments_order (Obj []) =
      \<lparr>buyerEmail = Null, websiteType = Str (lit ''unknown''), amount = Undefined,
       currency = Str (lit ''USD''), raw = Obj []\<rparr>"
    by simp
  from b unconvertible_order
  have "sample_coerce (attribute unconvertible_event ''total'') = None" by simp
  with np empty_event_order unconvertible_order empty_event_absent(1) show ?thesis by simp
qed

text \<open>
  Claim C6 as stated fails for the NOWPayments amount: for an event without
  \<open>price_amount\<close> the extracted amount is undefined, not a default.
\<close>

theorem nowpayments_amount_no_default:
  "amount (nowpayments_order (Obj [(lit ''payment_status'', Str (lit ''finished''))])) = Undefined"
  by (simp add: nowpayments_order_def lit_def)

section \<open>Classification of verified events\<close>

lemma lemon_order_unconvertible:
  assumes "ToNumber co (attribute evt ''total'') = Inl e"
  shows "lemon_order co evt = Inl e"
proof -
  from ToNumber_Inl [OF assms]
  have "attribute evt ''total'' \<noteq> Undefined \<and> attribute evt ''total'' \<noteq> Null" by auto
  then have "nullish (attribute evt ''total'') (Num (Fin 0)) = attribute evt ''total''"
    by (simp add: nullish_def)
  with assms show ?thesis by (simp add: lemon_order_paths)
qed

lemma lemon_order_convertible:
  assumes "ToNumber co (attribute evt ''total'') = Inr n"
  shows "\<exists>ord. lemon_order co evt = Inr ord"
proof -
  have "\<exists>m. ToNumber co (nullish (attribute evt ''total'') (Num (Fin 0))) = Inr m"
    using assms by (simp add: nullish_def)
  then show ?thesis by (auto simp: lemon_order_paths)
qed

lemma unconvertible_created_nonempty: "unconvertible_created_body \<noteq> []"
  by (simp add: unconvertible_created_body_def lit_def)

lemma sample_parse_unconvertible_created:
  "sample_parse unconvertible_created_body = Some unconvertible_created_event"
  by (simp add: sample_parse_def created_body_def refunded_body_def finished_body_def
      waiting_body_def unconvertible_created_body_def lit_def)

lemma unconvertible_created_type:
  "lemon_event_type unconvertible_created_event = Str (lit ''order_created'')"
  by (simp add: lemon_event_type_def unconvertible_created_event_def or_else_def lit_def)

lemma unconvertible_created_total:
  "attribute unconvertible_created_event ''total'' =
     Obj [(lit ''valueOf'', Num (Fin 1)), (lit ''toString'', Num (Fin 1))]"
  by (simp add: attribute_def unconvertible_created_event_def lit_def)

lemma unconvertible_created_ToNumber:
  "ToNumber sample_coerce (attribute unconvertible_created_event ''total'') = Inl TypeError"
  by (simp add: unconvertible_created_total sample_coerce_def)

text \<open>
  Claim C5 as stated fails for a verified LemonSqueezy event named \<open>order_created\<close> whose
  \<open>total\<close> is the object \<open>{"valueOf":1,"toString":1}\<close>: the division throws a TypeError, the
  handler calls nothing and answers 500.
\<close>

theorem unconvertible_total_not_notified:
  "verifyLemonSignature (hmac sample_runtime) (rawBody (signed_lemon unconvertible_created_body))
      (headers (signed_lemon unconvertible_created_body) ''x-signature'')
      (LEMONSQUEEZY_SIGNING_SECRET sample_env) = Inr True
 \<and> JSON_parse sample_runtime unconvertible_created_body = Some unconvertible_created_event
 \<and> lemon_event_type unconvertible_created_event = Str (lit ''order_created'')
 \<and> lemonsqueezy_handler sample_runtime sample_env (signed_lemon unconvertible_created_body) =
      (\<lparr>status = 500, body = ''server error''\<rparr>, [])"
proof -
  note v = verify_signed_lemon [OF unconvertible_created_nonempty]
  have rb: "rawBody (signed_lemon unconvertible_created_body) = Some unconvertible_created_body"
    by (simp add: signed_lemon_def)
  have p: "JSON_parse sample_runtime unconvertible_created_body = Some unconvertible_created_event"
    by (simp add: sample_runtime_def sample_parse_unconvertible_created)
  have c: "coerce sample_runtime = sample_coerce" by (simp add: sample_runtime_def)
  have "lemonsqueezy_handler sample_runtime sample_env (signed_lemon unconvertible_created_body) =
      (\<lparr>status = 500, body = ''server error''\<rparr>, [])"
    unfolding lemonsqueezy_handler_verified [OF v rb]
    by (simp add: p c lemon_success_def unconvertible_created_type
        lemon_order_unconvertible [OF unconvertible_created_ToNumber] server_error_def)
  with v p unconvertible_created_type show ?thesis by simp
qed

text \<open>
  Claim C5, as the code has it. For a verified request whose body parses: a LemonSqueezy
  event whose name (\<open>meta.event_name\<close>, else \<open>event\<close>) is \<open>order_created\<close> or
  \<open>subscription_payment_success\<close> makes the handler call \<open>notifyOrder\<close> exactly once, with the
  extracted order, whenever its \<open>total\<close> converts to a number; when the conversion of the
  \<open>total\<close> throws, the handler calls nothing and answers 500. A NOWPayments event with
  \<open>payment_status\<close> equal to \<open>finished\<close> makes the handler call \<open>notifyOrder\<close> exactly once.
  With any other name or status the handler calls nothing and answers 200.
\<close>

theorem classifier_notifies_once:
  "(verifyLemonSignature (hmac rt) (rawBody req) (headers req ''x-signature'')
      (LEMONSQUEEZY_SIGNING_SECRET ev) = Inr True
    \<and> rawBody req = Some rb \<and> JSON_parse rt rb = Some evt \<longrightarrow>
      (lemon_event_type evt \<in> {Str (lit ''order_created''), Str (lit ''subscription_payment_success'')}
         \<and> lemon_order (coerce rt) evt = Inr ord \<longrightarrow>
       snd (lemonsqueezy_handler rt ev req) = [ord])
    \<and> (lemon_event_type evt \<in> {Str (lit ''order_created''), Str (lit ''subscription_payment_success'')}
         \<and> ToNumber (coerce rt) (attribute evt ''total'') = Inr n \<longrightarrow>
       (\<exists>ord'. lemon_order (coerce rt) evt = Inr ord'
          \<and> snd (lemonsqueezy_handler rt ev req) = [ord']))
    \<and> (lemon_event_type evt \<in> {Str (lit ''order_created''), Str (lit ''subscription_payment_success'')}
         \<and> ToNumber (coerce rt) (attribute evt ''total'') = Inl e \<longrightarrow>
       lemonsqueezy_handler rt ev req = (\<lparr>status = 500, body = ''server error''\<rparr>, []))
    \<and> (lemon_event_type evt \<notin> {Str (lit ''order_created''), Str (lit ''subscription_payment_success'')} \<longrightarrow>
       lemonsqueezy_handler rt ev req = (\<lparr>status = 200, body = ''ok''\<rparr>, [])))
 \<and> (verifyNowPaymentsSignature (hmac rt) (rawBody req) (headers req ''x-nowpayments-sig'')
      (NOWPAYMENTS_IPN_SECRET ev) = Inr True
    \<and> rawBody req = Some rb \<and> JSON_parse rt rb = Some evt \<longrightarrow>
      (get evt ''payment_status'' = Str (lit ''finished'') \<longrightarrow>
       snd (nowpayments_handler rt ev req) = [nowpayments_order evt])
    \<and> (get evt ''payment_status'' \<noteq> Str (lit ''finished'') \<longrightarrow>
       nowpayments_handler rt ev req = (\<lparr>status = 200, body = ''ok''\<rparr>, [])))"
proof (intro conjI impI; (elim conjE)?)
  assume v: "verifyLemonSignature (hmac rt) (rawBody req) (headers req ''x-signature'')
      (LEMONSQUEEZY_SIGNING_SECRET ev) = Inr True" and rb: "rawBody req = Some rb"
    and p: "JSON_parse rt rb = Some evt"
  note h = lemonsqueezy_handler_verified [OF v rb]
  { assume "lemon_event_type evt \<in> {Str (lit ''order_created''), Str (lit ''subscription_payment_success'')}"
      and "lemon_order (coerce rt) evt = Inr ord"
    then show "snd (lemonsqueezy_handler rt ev req) = [ord]"
      by (auto simp: h p lemon_success_def snd_send_order) }
  { assume t: "lemon_event_type evt \<in> {Str (lit ''order_created''), Str (lit ''subscription_payment_success'')}"
      and "ToNumber (coerce rt) (attribute evt ''total'') = Inr n"
    from lemon_order_convertible [OF this(2)]
    obtain ord' where o: "lemon_order (coerce rt) evt = Inr ord'" by blast
    with t have "snd (lemonsqueezy_handler rt ev req) = [ord']"
      by (auto simp: h p lemon_success_def snd_send_order)
    with o show "\<exists>ord'. lemon_order (coerce rt) evt = Inr ord'
          \<and> snd (lemonsqueezy_handler rt ev req) = [ord']"
      by blast }
  { assume t: "lemon_event_type evt \<in> {Str (lit ''order_created''), Str (lit ''subscription_payment_success'')}"
      and "ToNumber (coerce rt) (attribute evt ''total'') = Inl e"
    from lemon_order_unconvertible [OF this(2)] t
    show "lemonsqueezy_handler rt ev req = (\<lparr>status = 500, body = ''server error''\<rparr>, [])"
      by (auto simp: h p lemon_success_def server_error_def) }
  { assume "lemon_event_type evt \<notin> {Str (lit ''order_created''), Str (lit ''subscription_payment_success'')}"
    then show "lemonsqueezy_handler rt ev req = (\<lparr>status = 200, body = ''ok''\<rparr>, [])"
      by (simp add: h p lemon_success_def) }
next
  assume v: "verifyNowPaymentsSignature (hmac rt) (rawBody req) (headers req ''x-nowpayments-sig'')
      (NOWPAYMENTS_IPN_SECRET ev) = Inr True" and rb: "rawBody req = Some rb"
    and p: "JSON_parse rt rb = Some evt"
  note h = nowpayments_handler_verified [OF v rb]
  { assume "get evt ''payment_status'' = Str (lit ''finished'')"
    then show "snd (nowpayments_handler rt ev req) = [nowpayments_order evt]"
      by (simp add: h p nowpayments_success_def snd_send_order) }
  { assume "get evt ''payment_status'' \<noteq> Str (lit ''finished'')"
    then show "nowpayments_handler rt ev req = (\<lparr>status = 200, body = ''ok''\<rparr>, [])"
      by (simp add: h p nowpayments_success_def) }
qed

text \<open>
  The five sample requests: a success event with a total of 2500, another event name, a
  success event whose total does not convert, a finished payment and a waiting one.
\<close>

theorem classifier_notifies_once_witness:
  "lemon_event_type created_event = Str (lit ''order_created'')
 \<and> snd (lemonsqueezy_handler sample_runtime sample_env (signed_lemon created_body)) =
      [\<lparr>buyerEmail = Null, websiteType = Str (lit ''unknown''), amount = Num (Fin 25),
        currency = Str (lit ''USD''), raw = created_event\<rparr>]
 \<and> lemon_event_type refunded_event = Str (lit ''order_refunded'')
 \<and> lemonsqueezy_handler sample_runtime sample_env (signed_lemon refunded_body) =
      (\<lparr>status = 200, body = ''ok''\<rparr>, [])
 \<and> get finished_event ''payment_status'' = Str (lit ''finished'')
 \<and> snd (nowpayments_handler sample_runtime sample_env (signed_nowpayments finished_body)) =
      [nowpayments_order finished_event]
 \<and> get waiting_event ''payment_status'' = Str (lit ''waiting'')
 \<and> nowpayments_handler sample_runtime sample_env (signed_nowpayments waiting_body) =
      (\<lparr>status = 200, body = ''ok''\<rparr>, [])
 \<and> ToNumber sample_coerce (attribute created_event ''total'') = Inr (Fin 2500)
 \<and> (\<exists>ord. lemon_order sample_coerce created_event = Inr ord
       \<and> snd (lemonsqueezy_handler sample_runtime sample_env (signed_lemon created_body)) = [ord])
 \<and> lemon_event_type unconvertible_created_event = Str (lit ''order_created'')
 \<and> ToNumber sample_coerce (attribute unconvertible_created_event ''total'') = Inl TypeError
 \<and> lemonsqueezy_handler sample_runtime sample_env (signed_lemon unconvertible_created_body) =
      (\<lparr>status = 500, body = ''server error''\<rparr>, [])"
proof -
  note t = classifier_notifies_once [where rt = sample_runtime and ev = sample_env]
  have p: "JSON_parse sample_runtime = sample_parse" "coerce sample_runtime = sample_coerce"
    by (simp_all add: sample_runtime_def)
  have neq: "Str (lit ''order_refunded'') \<notin>
      {Str (lit ''order_created''), Str (lit ''subscription_payment_success'')}"
    "Str (lit ''waiting'') \<noteq> Str (lit ''finished'')"
    by (simp_all add: lit_def)
  have fin: "get finished_event ''payment_status'' = Str (lit ''finished'')"
    by (simp add: finished_event_def lit_def)
  have wait: "get waiting_event ''payment_status'' = Str (lit ''waiting'')"
    by (simp add: waiting_event_def lit_def)
  have tot: "ToNumber sample_coerce (attribute created_event ''total'') = Inr (Fin 2500)"
    by (simp add: attribute_def created_event_def lit_def)
  have 1: "snd (lemonsqueezy_handler sample_runtime sample_env (signed_lemon created_body)) =
      [\<lparr>buyerEmail = Null, websiteType = Str (lit ''unknown''), amount = Num (Fin 25),
        currency = Str (lit ''USD''), raw = created_event\<rparr>]"
    using t [where req = "signed_lemon created_body" and rb = created_body
        and evt = created_event]
      verify_signed_lemon [OF sample_bodies_nonempty(1)]
    by (simp add: signed_lemon_def p sample_parse_bodies created_type created_order)
  have 2: "lemonsqueezy_handler sample_runtime sample_env (signed_lemon refunded_body) =
      (\<lparr>status = 200, body = ''ok''\<rparr>, [])"
    using t [where req = "signed_lemon refunded_body" and rb = refunded_body
        and evt = refunded_event]
      verify_signed_lemon [OF sample_bodies_nonempty(2)] neq
    by (simp add: signed_lemon_def p sample_parse_bodies refunded_type)
  have 3: "snd (nowpayments_handler sample_runtime sample_env (signed_nowpayments finished_body)) =
      [nowpayments_order finished_event]"
    using t [where req = "signed_nowpayments finished_body" and rb = finished_body
        and evt = finished_event]
      verify_signed_nowpayments [OF sample_bodies_nonempty(3)]
    by (simp add: signed_nowpayments_def p sample_parse_bodies fin)
  have 4: "nowpayments_handler sample_runtime sample_env (signed_nowpayments waiting_body) =
      (\<lparr>status = 200, body = ''ok''\<rparr>, [])"
    using t [where req = "signed_nowpayments waiting_body" and rb = waiting_body
        and evt = waiting_event]
      verify_signed_nowpayments [OF sample_bodies_nonempty(4)] neq
    by (simp add: signed_nowpayments_def p sample_parse_bodies wait)
  have 5: "\<exists>ord. lemon_order sample_coerce created_event = Inr ord
       \<and> snd (lemonsqueezy_handler sample_runtime sample_env (signed_lemon created_body)) = [ord]"
    using t [where req = "signed_lemon created_body" and rb = created_body
        and evt = created_event and n = "Fin 2500"]
      verify_signed_lemon [OF sample_bodies_nonempty(1)]
    by (simp add: signed_lemon_def p sample_parse_bodies created_type tot)
  have 6: "lemonsqueezy_handler sample_runtime sample_env (signed_lemon unconvertible_created_body) =
      (\<lparr>status = 500, body = ''server error''\<rparr>, [])"
    using t [where req = "signed_lemon unconvertible_created_body"
        and rb = unconvertible_created_body and evt = unconvertible_created_event
        and e = TypeError]
      verify_signed_lemon [OF unconvertible_created_nonempty]
    by (simp add: signed_lemon_def p sample_parse_unconvertible_created
        unconvertible_created_type unconvertible_created_ToNumber)
  from 1 2 3 4 5 6 created_type refunded_type fin wait tot unconvertible_created_type
    unconvertible_created_ToNumber
  show ?thesis by simp
qed

section \<open>Amounts and website types\<close>

text \<open>Division by 100 is exact on a total that is a whole number of hundreds.\<close>

lemma bitlen_bounds: "0 < n \<Longrightarrow> 2 ^ (bitlen n - 1) \<le> n \<and> n < 2 ^ bitlen n"
proof (induction n rule: bitlen.induct)
  case (1 n)
  show ?case
  proof (cases "n div 2 = 0")
    case True
    with 1(2) have "n = 1" by presburger
    then show ?thesis by (simp add: bitlen.simps)
  next
    case False
    with 1 have ih: "2 ^ (bitlen (n div 2) - 1) \<le> n div 2" "n div 2 < 2 ^ bitlen (n div 2)"
      by simp_all
    from False have pos: "0 < bitlen (n div 2)" by (simp add: bitlen.simps)
    from 1(2) have b: "bitlen n = Suc (bitlen (n div 2))" by (simp add: bitlen.simps)
    from pos have "(2::nat) ^ (bitlen n - 1) = 2 * 2 ^ (bitlen (n div 2) - 1)"
      by (cases "bitlen (n div 2)") (simp_all add: b)
    with ih(1) have lo: "2 ^ (bitlen n - 1) \<le> n" by linarith
    from ih(2) have "n < 2 * 2 ^ bitlen (n div 2)" by linarith
    with lo show ?thesis by (simp add: b)
  qed
qed


lemma bitlen_one: "bitlen (Suc 0) = 1"
  by (simp add: bitlen.simps)

lemma ilog2_of_nat:
  assumes "0 < k"
  shows "ilog2 (of_nat k) = int (bitlen k) - 1"
proof -
  have q: "quotient_of (of_nat k :: rat) = (int k, 1)"
    using quotient_of_int [of "int k"] by simp
  from bitlen_bounds [OF assms] have "(2 :: nat) ^ (bitlen k - 1) \<le> k" by simp
  then have "(of_nat (2 ^ (bitlen k - 1)) :: rat) \<le> of_nat k" by (simp only: of_nat_le_iff)
  then have le: "(2 :: rat) ^ (bitlen k - 1) \<le> of_nat k" by simp
  from assms have pos: "0 < bitlen k" by (simp add: bitlen.simps)
  then have "pow2 (int (bitlen k) - 1) = 2 ^ (bitlen k - 1)"
    by (simp add: pow2_def nat_diff_distrib)
  with le pos show ?thesis
    by (simp add: ilog2_def q bitlen_one)
qed

lemma round_half_even_of_int: "round_half_even (of_int m) = m"
  by (simp add: round_half_even_def)

lemma round_double_pos_of_nat:
  assumes "0 < k" "k < 2 ^ 53"
  shows "round_double_pos (of_nat k) = Some (of_nat k)"
proof -
  define b where "b = bitlen k"
  from bitlen_bounds [OF assms(1)] assms(2) have "(2 :: nat) ^ (b - 1) < 2 ^ 53"
    by (simp add: b_def)
  then have "b - 1 < 53" by (simp only: power_strict_increasing_iff)
  moreover from assms(1) have "0 < b" by (simp add: b_def bitlen.simps)
  ultimately have b: "0 < b" "b \<le> 53" by simp_all
  define s where "s = 53 - b"
  have e: "max (ilog2 (of_nat k) - 52) (- 1074) = - int s"
    using b by (simp add: ilog2_of_nat assms(1) s_def flip: b_def)
  have p: "pow2 (- int s) = 1 / 2 ^ s"
    by (simp add: pow2_def)
  have "(of_nat k :: rat) / pow2 (- int s) = of_int (int (k * 2 ^ s))"
    by (simp add: p)
  then have r: "round_half_even (of_nat k / pow2 (- int s)) = int (k * 2 ^ s)"
    by (simp only: round_half_even_of_int)
  have y: "(of_int (int (k * 2 ^ s)) :: rat) * pow2 (- int s) = of_nat k"
    by (simp add: p)
  have "(of_nat k :: rat) < of_nat (2 ^ 53)"
    using assms(2) by (simp only: of_nat_less_iff)
  also have "(of_nat (2 ^ 53) :: rat) \<le> pow2 1024" by (simp add: pow2_def)
  finally have "\<not> pow2 1024 \<le> (of_nat k :: rat)" by simp
  then show ?thesis
    unfolding round_double_pos_def e Let_def r y by simp
qed

lemma to_double_of_nat: "k < 2 ^ 53 \<Longrightarrow> to_double (of_nat k) = Fin (of_nat k)"
  by (cases "k = 0") (simp_all add: to_double_def round_double_pos_of_nat)

lemma div100_whole: "k < 2 ^ 53 \<Longrightarrow> div100 (Fin (of_nat (100 * k))) = Fin (of_nat k)"
  using to_double_of_nat [of k] by simp

text \<open>The division rounds the exact quotient to the nearest double.\<close>

lemma pow2_powi: "pow2 e = 2 powi e"
  by (simp add: pow2_def power_int_def inverse_eq_divide power_one_over)

lemma pow2_pos: "0 < pow2 e"
  by (simp add: pow2_powi)

lemma pow2_add: "pow2 (a + b) = pow2 a * pow2 b"
  by (simp add: pow2_powi power_int_add)

lemma pow2_diff: "pow2 (a - b) = pow2 a / pow2 b"
  by (simp add: pow2_powi power_int_diff)

lemma pow2_nat: "pow2 (int n) = 2 ^ n"
  by (simp add: pow2_powi)

lemma pow2_le_iff: "pow2 a \<le> pow2 b \<longleftrightarrow> a \<le> b"
proof
  assume "a \<le> b"
  then show "pow2 a \<le> pow2 b" by (simp add: pow2_powi power_int_increasing)
next
  assume le: "pow2 a \<le> pow2 b"
  show "a \<le> b"
  proof (rule ccontr)
    assume "\<not> a \<le> b"
    then have "b < a" by simp
    then have "pow2 b < pow2 a" by (simp add: pow2_powi power_int_strict_increasing)
    with le show False by simp
  qed
qed

lemma pow2_less_iff: "pow2 a < pow2 b \<longleftrightarrow> a < b"
  using pow2_le_iff [of b a] by (simp add: not_le [symmetric])

lemma ilog2_bounds:
  assumes "0 < x"
  shows "pow2 (ilog2 x) \<le> x" and "x < pow2 (ilog2 x + 1)"
proof -
  obtain p q where pq: "quotient_of x = (p, q)" by (cases "quotient_of x")
  then have q: "0 < q" and x: "x = of_int p / of_int q"
    by (simp_all add: quotient_of_denom_pos quotient_of_div)
  from assms x q have p: "0 < p" by (simp add: zero_less_divide_iff)
  define bp where "bp = bitlen (nat p)"
  define bq where "bq = bitlen (nat q)"
  define d where "d = int bp - int bq"
  from bitlen_bounds [of "nat p"] p have "2 ^ (bp - 1) \<le> nat p" "nat p < 2 ^ bp"
    by (simp_all add: bp_def)
  then have "(of_nat (2 ^ (bp - 1)) :: rat) \<le> of_nat (nat p)" "(of_nat (nat p) :: rat) < of_nat (2 ^ bp)"
    by (simp_all only: of_nat_le_iff of_nat_less_iff)
  with p have pb: "(2 :: rat) ^ (bp - 1) \<le> of_int p" "(of_int p :: rat) < 2 ^ bp" by simp_all
  from bitlen_bounds [of "nat q"] q have "2 ^ (bq - 1) \<le> nat q" "nat q < 2 ^ bq"
    by (simp_all add: bq_def)
  then have "(of_nat (2 ^ (bq - 1)) :: rat) \<le> of_nat (nat q)" "(of_nat (nat q) :: rat) < of_nat (2 ^ bq)"
    by (simp_all only: of_nat_le_iff of_nat_less_iff)
  with q have qb: "(2 :: rat) ^ (bq - 1) \<le> of_int q" "(of_int q :: rat) < 2 ^ bq" by simp_all
  from p have bp: "0 < bp" by (simp add: bp_def bitlen.simps)
  from q have bq: "0 < bq" by (simp add: bq_def bitlen.simps)
  have qpos: "(0 :: rat) < of_int q" using q by simp
  have lo: "pow2 (d - 1) < x"
  proof -
    have "d - 1 = int (bp - 1) - int bq" using bp by (simp add: d_def of_nat_diff)
    then have "pow2 (d - 1) = pow2 (int (bp - 1) - int bq)" by (rule arg_cong)
    also have "\<dots> = 2 ^ (bp - 1) / 2 ^ bq" by (simp only: pow2_diff pow2_nat)
    also have "\<dots> < 2 ^ (bp - 1) / of_int q"
      using qb(2) qpos by (intro divide_strict_left_mono) simp_all
    also have "\<dots> \<le> of_int p / of_int q"
      using pb(1) qpos by (intro divide_right_mono) simp_all
    finally show ?thesis by (simp add: x)
  qed
  have hi: "x < pow2 (d + 1)"
  proof -
    have "x = of_int p / of_int q" by (rule x)
    also have "\<dots> < 2 ^ bp / of_int q"
      using pb(2) qpos by (intro divide_strict_right_mono) simp_all
    also have "\<dots> \<le> 2 ^ bp / 2 ^ (bq - 1)"
      using qb(1) qpos by (intro divide_left_mono) simp_all
    also have "\<dots> = pow2 (int bp - int (bq - 1))" by (simp only: pow2_diff pow2_nat)
    also have "int bp - int (bq - 1) = d + 1" using bq by (simp add: d_def of_nat_diff)
    finally show ?thesis .
  qed
  have il: "ilog2 x = (if pow2 d \<le> x then d else d - 1)"
    by (simp add: ilog2_def pq d_def bp_def bq_def)
  show "pow2 (ilog2 x) \<le> x"
    using lo by (simp add: il)
  show "x < pow2 (ilog2 x + 1)"
    using hi by (simp add: il not_le)
qed


lemma round_half_even_cases:
  "round_half_even t = \<lfloor>t\<rfloor> \<or> round_half_even t = \<lfloor>t\<rfloor> + 1"
  by (simp add: round_half_even_def Let_def)

lemma round_half_even_near:
  "\<bar>of_int (round_half_even t) - t\<bar> \<le> t - of_int \<lfloor>t\<rfloor>"
  "\<bar>of_int (round_half_even t) - t\<bar> \<le> of_int \<lfloor>t\<rfloor> + 1 - t"
proof -
  have f: "of_int \<lfloor>t\<rfloor> \<le> t" "t < of_int \<lfloor>t\<rfloor> + 1" by linarith+
  show "\<bar>of_int (round_half_even t) - t\<bar> \<le> t - of_int \<lfloor>t\<rfloor>"
    using f by (auto simp: round_half_even_def Let_def)
  show "\<bar>of_int (round_half_even t) - t\<bar> \<le> of_int \<lfloor>t\<rfloor> + 1 - t"
    using f by (auto simp: round_half_even_def Let_def)
qed

lemma round_half_even_tie:
  "t - of_int \<lfloor>t\<rfloor> = 1 / 2 \<Longrightarrow> even (round_half_even t)"
  by (simp add: round_half_even_def Let_def)


lemma pow2_num: "pow2 52 = 2 ^ 52" "pow2 53 = 2 ^ 53" "pow2 1 = 2"
  by (simp_all add: pow2_def)

lemma grid:
  assumes x: "0 < x" and e: "e = max (ilog2 x - 52) (- 1074)" and f: "f = \<lfloor>x / pow2 e\<rfloor>"
  shows grid_lo: "of_int f * pow2 e \<le> x"
    and grid_hi: "x < (of_int f + 1) * pow2 e"
    and grid_f0: "0 \<le> f"
    and grid_f53: "f < 2 ^ 53"
    and grid_normal: "e = ilog2 x - 52 \<Longrightarrow> 2 ^ 52 \<le> f"
    and grid_subnormal: "e \<noteq> ilog2 x - 52 \<Longrightarrow> e = - 1074 \<and> f < 2 ^ 52"
proof -
  note p = pow2_pos [of e]
  have fl: "of_int f \<le> x / pow2 e" "x / pow2 e < of_int f + 1"
    unfolding f by linarith+
  from fl(1) p show "of_int f * pow2 e \<le> x" by (simp add: pos_le_divide_eq)
  from fl(2) p show "x < (of_int f + 1) * pow2 e" by (simp add: pos_divide_less_eq)
  from x p have "0 \<le> x / pow2 e" by simp
  then show "0 \<le> f" unfolding f by simp
  have up: "x / pow2 e < pow2 (ilog2 x + 1 - e)"
    using ilog2_bounds(2) [OF x] p by (simp add: pow2_diff divide_strict_right_mono)
  have "ilog2 x + 1 - e \<le> 53" using e by simp
  then have "pow2 (ilog2 x + 1 - e) \<le> pow2 53" by (simp only: pow2_le_iff)
  with up have "x / pow2 e < 2 ^ 53" by (simp add: pow2_def)
  with fl(1) have "(of_int f :: rat) < of_int (2 ^ 53)" by simp
  then show "f < 2 ^ 53" by (simp only: of_int_less_iff)
  { assume n: "e = ilog2 x - 52"
    have "pow2 52 = pow2 (ilog2 x - e)" using n by simp
    also have "\<dots> = pow2 (ilog2 x) / pow2 e" by (rule pow2_diff)
    also have "\<dots> \<le> x / pow2 e"
      using ilog2_bounds(1) [OF x] p by (simp add: divide_right_mono)
    finally have "(of_int (2 ^ 52) :: rat) \<le> x / pow2 e" by (simp add: pow2_def)
    then show "2 ^ 52 \<le> f" unfolding f by (simp only: le_floor_iff) }
  { assume n: "e \<noteq> ilog2 x - 52"
    with e have e': "e = - 1074" and lt: "ilog2 x - 52 < e" by simp_all
    from lt have "ilog2 x + 1 - e \<le> 52" by simp
    then have "pow2 (ilog2 x + 1 - e) \<le> pow2 52" by (simp only: pow2_le_iff)
    with up have "x / pow2 e < 2 ^ 52" by (simp add: pow2_def)
    with fl(1) have "(of_int f :: rat) < of_int (2 ^ 52)" by simp
    then have "f < 2 ^ 52" by (simp only: of_int_less_iff)
    with e' show "e = - 1074 \<and> f < 2 ^ 52" by simp }
qed

lemma grid_gap:
  assumes x: "0 < x" and e: "e = max (ilog2 x - 52) (- 1074)" and f: "f = \<lfloor>x / pow2 e\<rfloor>"
    and z: "is_double z" and lt: "of_int f * pow2 e < z"
  shows "(of_int f + 1) * pow2 e \<le> z"
proof -
  note p = pow2_pos [of e]
  from grid_f0 [OF x e f] p have lo0: "0 \<le> of_int f * pow2 e" by simp
  with lt have zpos: "0 < z" by simp
  with z obtain m g where zm: "z = of_nat m * pow2 g" and m: "m < 2 ^ 53" and g: "- 1074 \<le> g"
    unfolding is_double_def by auto
  show ?thesis
  proof (cases "e \<le> g")
    case True
    define k where "k = int m * 2 ^ nat (g - e)"
    have "pow2 g = pow2 ((g - e) + e)" by simp
    also have "\<dots> = pow2 (g - e) * pow2 e" by (rule pow2_add)
    also have "pow2 (g - e) = 2 ^ nat (g - e)" using True by (simp add: pow2_def)
    finally have zk: "z = of_int k * pow2 e" by (simp add: zm k_def)
    with lt p have "(of_int f :: rat) < of_int k" by simp
    then have "f + 1 \<le> k" by simp
    then have "(of_int (f + 1) :: rat) \<le> of_int k" by (simp only: of_int_le_iff)
    with p show ?thesis unfolding zk by simp
  next
    case False
    with g e have n: "e = ilog2 x - 52" by simp
    from False have "53 + g \<le> ilog2 x" using n by simp
    then have le: "pow2 (53 + g) \<le> pow2 (ilog2 x)" by (simp only: pow2_le_iff)
    from m have "(of_nat m :: rat) < of_nat (2 ^ 53)" by (simp only: of_nat_less_iff)
    then have "z < 2 ^ 53 * pow2 g" using pow2_pos [of g] by (simp add: zm)
    also have "\<dots> = pow2 (53 + g)" by (simp add: pow2_add pow2_num)
    also note le
    also have "pow2 (ilog2 x) = pow2 (52 + e)" using n by simp
    also have "\<dots> = 2 ^ 52 * pow2 e" by (simp add: pow2_add pow2_num)
    also have "\<dots> \<le> of_int f * pow2 e"
    proof -
      from grid_normal [OF x e f n] have "(of_int (2 ^ 52) :: rat) \<le> of_int f"
        by (simp only: of_int_le_iff)
      with p show ?thesis by simp
    qed
    finally show ?thesis using lt by simp
  qed
qed


lemma significand_repr:
  assumes "0 \<le> n" "n \<le> 2 ^ 53"
  shows "\<exists>m g. of_int n * pow2 e = of_nat m * pow2 g \<and> m < 2 ^ 53 \<and> e \<le> g
           \<and> (even n \<longrightarrow> even m) \<and> ((2 :: int) ^ 52 \<le> n \<longrightarrow> (2 :: nat) ^ 52 \<le> m)
           \<and> (n < 2 ^ 53 \<longrightarrow> g = e)"
proof (cases "n < 2 ^ 53")
  case True
  have "of_int n * pow2 e = of_nat (nat n) * pow2 e" using assms(1) by simp
  moreover have "nat n < 2 ^ 53" using True assms(1) by simp
  moreover have "even n \<longrightarrow> even (nat n)" using assms(1) by (simp add: even_nat_iff)
  moreover have "(2 :: int) ^ 52 \<le> n \<longrightarrow> (2 :: nat) ^ 52 \<le> nat n"
    using assms(1) by (simp add: le_nat_iff)
  ultimately show ?thesis by (intro exI [of _ "nat n"] exI [of _ e]) simp
next
  case False
  with assms(2) have n: "n = 2 ^ 53" by simp
  have "pow2 (e + 1) = pow2 e * 2" by (simp add: pow2_add pow2_num)
  then have "of_int n * pow2 e = of_nat (2 ^ 52) * pow2 (e + 1)" by (simp add: n)
  then show ?thesis
    by - (rule exI [where x = "2 ^ 52"], rule exI [where x = "e + 1"], simp add: n)
qed

lemma round_double_pos_nearest:
  assumes x: "0 < x" and r: "round_double_pos x = Some y"
  shows "nearest_double x y" and "0 \<le> y"
proof -
  define e where "e = max (ilog2 x - 52) (- 1074)"
  define t where "t = x / pow2 e"
  define f where "f = \<lfloor>t\<rfloor>"
  define n where "n = round_half_even t"
  note p = pow2_pos [of e]
  have e': "e = max (ilog2 x - 52) (- 1074)" and f': "f = \<lfloor>x / pow2 e\<rfloor>"
    by (simp_all add: e_def f_def t_def)
  note g = grid [OF x e' f']
  from r have y: "y = of_int n * pow2 e" and ylt: "y < pow2 1024"
    by (simp_all add: round_double_pos_def Let_def n_def t_def e_def split: if_splits)
  have tx: "t * pow2 e = x" using p by (simp add: t_def)
  have nc: "n = f \<or> n = f + 1" unfolding n_def f_def by (rule round_half_even_cases)
  with g(3,4) have n0: "0 \<le> n" and n53: "n \<le> 2 ^ 53" by auto
  from n0 p show y0: "0 \<le> y" by (simp add: y)
  have scale: "\<bar>y - x\<bar> = \<bar>of_int n - t\<bar> * pow2 e"
  proof -
    have "y - x = (of_int n - t) * pow2 e" by (simp add: y tx left_diff_distrib)
    then show ?thesis using p by (simp add: abs_mult)
  qed
  have near_lo: "\<bar>y - x\<bar> \<le> x - of_int f * pow2 e"
  proof -
    have "\<bar>of_int n - t\<bar> * pow2 e \<le> (t - of_int f) * pow2 e"
      using round_half_even_near(1) [of t] p unfolding n_def f_def
      by (intro mult_right_mono) simp_all
    then show ?thesis by (simp add: scale tx left_diff_distrib)
  qed
  have near_hi: "\<bar>y - x\<bar> \<le> (of_int f + 1) * pow2 e - x"
  proof -
    have "\<bar>of_int n - t\<bar> * pow2 e \<le> (of_int f + 1 - t) * pow2 e"
      using round_half_even_near(2) [of t] p unfolding n_def f_def
      by (intro mult_right_mono) simp_all
    then show ?thesis by (simp add: scale tx left_diff_distrib)
  qed
  from significand_repr [OF n0 n53, of e] obtain m k where
    mk: "of_int n * pow2 e = of_nat m * pow2 k" "m < 2 ^ 53" "e \<le> k" "even n \<longrightarrow> even m"
      "(2 :: int) ^ 52 \<le> n \<longrightarrow> (2 :: nat) ^ 52 \<le> m" "n < 2 ^ 53 \<longrightarrow> k = e"
    by blast
  have e1074: "- 1074 \<le> e" by (simp add: e_def)
  have dbl: "is_double y"
    unfolding is_double_def using y0 ylt mk(1,2,3) e1074
    by (intro conjI exI [of _ m] exI [of _ k]) (simp_all add: y)
  have nearest: "\<bar>y - x\<bar> \<le> \<bar>z - x\<bar>" if z: "is_double z" for z
  proof (cases "z \<le> of_int f * pow2 e")
    case True
    with near_lo show ?thesis by simp
  next
    case False
    then have "(of_int f + 1) * pow2 e \<le> z"
      using grid_gap [OF x e' f' z] by simp
    with near_hi show ?thesis by simp
  qed
  have tie: "even_significand y" if z: "is_double z" "z \<noteq> y" "\<bar>z - x\<bar> = \<bar>y - x\<bar>" for z
  proof -
    have half: "t - of_int f = 1 / 2"
    proof (cases "z \<le> of_int f * pow2 e")
      case True
      with near_lo z(3) g(1) have zlo: "z = of_int f * pow2 e" by simp
      with z(2) nc have "n = f + 1" by (auto simp: y)
      then have "\<bar>y - x\<bar> = (of_int f + 1) * pow2 e - x" using g(2) by (simp add: y)
      moreover have "\<bar>z - x\<bar> = x - of_int f * pow2 e" using g(1) by (simp add: zlo)
      ultimately have "(of_int f + 1) * pow2 e - t * pow2 e = t * pow2 e - of_int f * pow2 e"
        using z(3) by (simp add: tx)
      then have "((of_int f + 1) - t) * pow2 e = (t - of_int f) * pow2 e"
        by (simp only: left_diff_distrib)
      with p have "(of_int f + 1) - t = t - of_int f" by simp
      then show ?thesis by simp
    next
      case False
      then have hile: "(of_int f + 1) * pow2 e \<le> z"
        using grid_gap [OF x e' f' z(1)] by simp
      with near_hi z(3) g(2) have zhi: "z = (of_int f + 1) * pow2 e" by simp
      with z(2) nc have "n = f" by (auto simp: y)
      then have "\<bar>y - x\<bar> = x - of_int f * pow2 e" using g(1) by (simp add: y)
      moreover have "\<bar>z - x\<bar> = (of_int f + 1) * pow2 e - x" using g(2) by (simp add: zhi)
      ultimately have "(of_int f + 1) * pow2 e - t * pow2 e = t * pow2 e - of_int f * pow2 e"
        using z(3) by (simp add: tx)
      then have "((of_int f + 1) - t) * pow2 e = (t - of_int f) * pow2 e"
        by (simp only: left_diff_distrib)
      with p have "(of_int f + 1) - t = t - of_int f" by simp
      then show ?thesis by simp
    qed
    then have ev: "even n" unfolding n_def f_def by (rule round_half_even_tie)
    with mk(4) have em: "even m" by simp
    have "2 ^ 52 \<le> m \<or> k = - 1074"
    proof (cases "e = ilog2 x - 52")
      case True
      from g(5) [OF True] nc have "2 ^ 52 \<le> n" by auto
      with mk(5) show ?thesis by simp
    next
      case False
      from g(6) [OF False] nc have "e = - 1074" "n < 2 ^ 53" by auto
      with mk(6) show ?thesis by simp
    qed
    with em mk(1,2,3) e1074 y0 show ?thesis
      unfolding even_significand_def
      by (intro exI [of _ m] exI [of _ k]) (simp add: y)
  qed
  from dbl nearest tie show "nearest_double x y"
    unfolding nearest_double_def by blast
qed


lemma round_double_pos_Some:
  assumes x: "0 < x" and lt: "x < pow2 1023"
  shows "\<exists>y. round_double_pos x = Some y"
proof -
  define e where "e = max (ilog2 x - 52) (- 1074)"
  define t where "t = x / pow2 e"
  note p = pow2_pos [of e]
  have e': "e = max (ilog2 x - 52) (- 1074)" and f': "\<lfloor>t\<rfloor> = \<lfloor>x / pow2 e\<rfloor>"
    by (simp_all add: e_def t_def)
  from ilog2_bounds(1) [OF x] lt have "pow2 (ilog2 x) < pow2 1023" by simp
  then have "ilog2 x < 1023" by (simp only: pow2_less_iff)
  then have "e \<le> 970" by (simp add: e_def)
  then have pe: "pow2 e \<le> pow2 970" by (simp only: pow2_le_iff)
  have "of_int (round_half_even t) \<le> of_int \<lfloor>t\<rfloor> + (1 :: rat)"
    using round_half_even_cases [of t] by auto
  also have "\<dots> \<le> t + 1" by simp
  finally have "of_int (round_half_even t) * pow2 e \<le> (t + 1) * pow2 e"
    using p by (intro mult_right_mono) simp_all
  also have "\<dots> = x + pow2 e" using p by (simp add: t_def distrib_right)
  also have "\<dots> < pow2 1023 + pow2 970" using lt pe by simp
  also have "\<dots> \<le> pow2 1024" by (simp add: pow2_def)
  finally show ?thesis
    by (simp add: round_double_pos_def Let_def t_def e_def)
qed

lemma is_double_minus: "is_double (- z) = is_double z"
  by (simp add: is_double_def)

lemma even_significand_minus: "even_significand (- y) = even_significand y"
  by (simp add: even_significand_def)

lemma nearest_double_minus:
  assumes "nearest_double q y"
  shows "nearest_double (- q) (- y)"
proof -
  from assms have d: "is_double y"
    and n: "\<And>z. is_double z \<Longrightarrow> \<bar>y - q\<bar> \<le> \<bar>z - q\<bar>"
    and t: "\<And>z. is_double z \<Longrightarrow> z \<noteq> y \<Longrightarrow> \<bar>z - q\<bar> = \<bar>y - q\<bar> \<Longrightarrow> even_significand y"
    unfolding nearest_double_def by blast+
  have 1: "is_double (- y)" using d by (simp only: is_double_minus)
  have 2: "\<bar>- y - - q\<bar> \<le> \<bar>z - - q\<bar>" if "is_double z" for z
  proof -
    from that have "is_double (- z)" by (simp only: is_double_minus)
    then have "\<bar>y - q\<bar> \<le> \<bar>- z - q\<bar>" by (rule n)
    then show ?thesis by linarith
  qed
  have 3: "even_significand (- y)"
    if "is_double z" "z \<noteq> - y" "\<bar>z - - q\<bar> = \<bar>- y - - q\<bar>" for z
  proof -
    from that(1) have "is_double (- z)" by (simp only: is_double_minus)
    moreover from that(2) have "- z \<noteq> y" by auto
    moreover from that(3) have "\<bar>- z - q\<bar> = \<bar>y - q\<bar>" by linarith
    ultimately have "even_significand y" by (rule t)
    then show ?thesis by (simp only: even_significand_minus)
  qed
  from 1 2 3 show ?thesis unfolding nearest_double_def by blast
qed

lemma nearest_double_zero: "nearest_double 0 0"
proof -
  have "is_double 0"
    unfolding is_double_def using pow2_pos [of 1024]
    by (intro conjI exI [where x = 0]) simp_all
  then show ?thesis by (simp add: nearest_double_def)
qed

lemma to_double_correct:
  assumes "\<bar>q\<bar> < pow2 1023"
  shows "correctly_rounded q (to_double q)"
proof -
  consider "q = 0" | "0 < q" | "q < 0" by linarith
  then show ?thesis
  proof cases
    case 1
    then show ?thesis by (simp add: to_double_def correctly_rounded_def nearest_double_zero)
  next
    case 2
    with assms obtain y where y: "round_double_pos q = Some y"
      using round_double_pos_Some [of q] by auto
    from round_double_pos_nearest [OF 2 y] 2 show ?thesis
      by (simp add: to_double_def correctly_rounded_def y)
  next
    case 3
    then have pos: "0 < - q" by simp
    with assms obtain y where y: "round_double_pos (- q) = Some y"
      using round_double_pos_Some [of "- q"] by auto
    from round_double_pos_nearest(1) [OF pos y] have "nearest_double (- (- q)) (- y)"
      by (rule nearest_double_minus)
    then have n: "nearest_double q (- y)" by simp
    from 3 n show ?thesis
      by (auto simp: to_double_def correctly_rounded_def y)
  qed
qed

lemma div100_correct:
  assumes "\<bar>x\<bar> < pow2 1024"
  shows "correctly_rounded (x / 100) (div100 (Fin x))"
proof -
  have "\<bar>x / 100\<bar> = \<bar>x\<bar> / 100" by simp
  also have "\<dots> \<le> \<bar>x\<bar> / 2" by (intro divide_left_mono) simp_all
  also have "\<dots> < pow2 1024 / 2" using assms by simp
  also have "\<dots> = pow2 1023" by (simp add: pow2_def)
  finally show ?thesis by (simp add: to_double_correct)
qed

text \<open>No other number is the quotient rounded to a double.\<close>

lemma canonical_gap:
  assumes z: "is_double z" and lt: "of_nat m * pow2 g < z"
    and c: "2 ^ 52 \<le> m \<or> g = - 1074" and g: "- 1074 \<le> g"
  shows "of_nat (m + 1) * pow2 g \<le> z"
proof -
  note p = pow2_pos [of g]
  have "(0 :: rat) \<le> of_nat m * pow2 g" using p by simp
  with lt have zpos: "0 < z" by simp
  with z obtain k h where zk: "z = of_nat k * pow2 h" and k: "k < 2 ^ 53" and h: "- 1074 \<le> h"
    unfolding is_double_def by auto
  show ?thesis
  proof (cases "g \<le> h")
    case True
    define K where "K = k * 2 ^ nat (h - g)"
    have "pow2 h = pow2 ((h - g) + g)" by simp
    also have "\<dots> = pow2 (h - g) * pow2 g" by (rule pow2_add)
    also have "pow2 (h - g) = 2 ^ nat (h - g)" using True by (simp add: pow2_def)
    finally have zK: "z = of_nat K * pow2 g" by (simp add: zk K_def)
    with lt p have "(of_nat m :: rat) < of_nat K" by simp
    then have "m + 1 \<le> K" by simp
    then have "(of_nat (m + 1) :: rat) \<le> of_nat K" by (simp only: of_nat_le_iff)
    with p show ?thesis unfolding zK by simp
  next
    case False
    with h c have m: "2 ^ 52 \<le> m" by auto
    from False have "53 + h \<le> 52 + g" by simp
    then have le: "pow2 (53 + h) \<le> pow2 (52 + g)" by (simp only: pow2_le_iff)
    from k have "(of_nat k :: rat) < of_nat (2 ^ 53)" by (simp only: of_nat_less_iff)
    then have "z < 2 ^ 53 * pow2 h" using pow2_pos [of h] by (simp add: zk)
    also have "\<dots> = pow2 (53 + h)" by (simp add: pow2_add pow2_num)
    also note le
    also have "pow2 (52 + g) = 2 ^ 52 * pow2 g" by (simp add: pow2_add pow2_num)
    also have "\<dots> \<le> of_nat m * pow2 g"
    proof -
      from m have "(of_nat (2 ^ 52) :: rat) \<le> of_nat m" by (simp only: of_nat_le_iff)
      with p show ?thesis by simp
    qed
    finally show ?thesis using lt by simp
  qed
qed

lemma canonical_parity:
  assumes eq: "(of_nat (m + 1) :: rat) * pow2 g = of_nat m' * pow2 g'"
    and em: "even m" and em': "even m'" and m': "m' < 2 ^ 53"
    and c: "2 ^ 52 \<le> m \<or> g = - 1074" and g': "- 1074 \<le> g'"
  shows False
proof (cases "g' < g")
  case True
  define n where "n = nat (g - g')"
  have n: "0 < n" using True by (simp add: n_def)
  have "pow2 g = pow2 ((g - g') + g')" by simp
  also have "\<dots> = pow2 (g - g') * pow2 g'" by (rule pow2_add)
  also have "pow2 (g - g') = 2 ^ n" using True by (simp add: pow2_def n_def)
  finally have pg: "pow2 g = 2 ^ n * pow2 g'" .
  have "(of_nat (m + 1) * 2 ^ n) * pow2 g' = of_nat m' * pow2 g'"
    using eq unfolding pg by (simp only: mult.assoc)
  with pow2_pos [of g'] have "(of_nat (m + 1) :: rat) * 2 ^ n = of_nat m'" by simp
  then have "(of_nat ((m + 1) * 2 ^ n) :: rat) = of_nat m'" by (simp add: algebra_simps)
  then have e: "(m + 1) * 2 ^ n = m'" by (simp only: of_nat_eq_iff)
  from True g' c have m52: "2 ^ 52 \<le> m" by auto
  have p2: "(2 :: nat) ^ 1 \<le> 2 ^ n" using n by (intro power_increasing) simp_all
  have "2 ^ 52 * 2 ^ 1 \<le> (m + 1) * 2 ^ n"
    using m52 p2 by (intro mult_mono) simp_all
  with e m' show False by simp
next
  case False
  define n where "n = nat (g' - g)"
  have "pow2 g' = pow2 ((g' - g) + g)" by simp
  also have "\<dots> = pow2 (g' - g) * pow2 g" by (rule pow2_add)
  also have "pow2 (g' - g) = 2 ^ n" using False by (simp add: pow2_def n_def)
  finally have pg: "pow2 g' = 2 ^ n * pow2 g" .
  have "of_nat (m + 1) * pow2 g = (of_nat m' * 2 ^ n) * pow2 g"
    using eq unfolding pg by (simp only: mult.assoc)
  with pow2_pos [of g] have "(of_nat (m + 1) :: rat) = of_nat m' * 2 ^ n" by simp
  then have "(of_nat (m + 1) :: rat) = of_nat (m' * 2 ^ n)" by (simp add: algebra_simps)
  then have "m + 1 = m' * 2 ^ n" by (simp only: of_nat_eq_iff)
  moreover have "even (m' * 2 ^ n)" using em' by simp
  moreover have "odd (m + 1)" using em by simp
  ultimately show False by simp
qed

lemma nearest_double_unique_pos:
  assumes a: "nearest_double q y" and b: "nearest_double q y'" and y0: "0 \<le> y" and lt: "y < y'"
  shows False
proof -
  from a have dy: "is_double y" and miny: "\<And>z. is_double z \<Longrightarrow> \<bar>y - q\<bar> \<le> \<bar>z - q\<bar>"
    and tiey: "\<And>z. is_double z \<Longrightarrow> z \<noteq> y \<Longrightarrow> \<bar>z - q\<bar> = \<bar>y - q\<bar> \<Longrightarrow> even_significand y"
    unfolding nearest_double_def by blast+
  from b have dy': "is_double y'" and miny': "\<And>z. is_double z \<Longrightarrow> \<bar>y' - q\<bar> \<le> \<bar>z - q\<bar>"
    and tiey': "\<And>z. is_double z \<Longrightarrow> z \<noteq> y' \<Longrightarrow> \<bar>z - q\<bar> = \<bar>y' - q\<bar> \<Longrightarrow> even_significand y'"
    unfolding nearest_double_def by blast+
  from miny [OF dy'] miny' [OF dy] have d: "\<bar>y - q\<bar> = \<bar>y' - q\<bar>" by simp
  from lt have ne: "y' \<noteq> y" by simp
  from tiey [OF dy' ne] d have "even_significand y" by simp
  with y0 obtain m g where ym: "y = of_nat m * pow2 g" and em: "even m" and m: "m < 2 ^ 53"
    and g: "- 1074 \<le> g" and c: "2 ^ 52 \<le> m \<or> g = - 1074"
    unfolding even_significand_def by auto
  from ne have ne': "y \<noteq> y'" by simp
  from tiey' [OF dy ne'] d have "even_significand y'" by simp
  with y0 lt obtain m' g' where ym': "y' = of_nat m' * pow2 g'" and em': "even m'"
    and m': "m' < 2 ^ 53" and g': "- 1074 \<le> g'"
    unfolding even_significand_def by auto
  define z where "z = (of_nat (m + 1) :: rat) * pow2 g"
  have zy': "z \<le> y'"
    unfolding z_def using dy' lt c g unfolding ym by (rule canonical_gap)
  have yz: "y < z" using pow2_pos [of g] by (simp add: z_def ym algebra_simps)
  have "m + 1 \<noteq> 2 ^ 53"
  proof
    assume "m + 1 = 2 ^ 53"
    then have "even (m + 1)" by simp
    with em show False by simp
  qed
  with m have m1: "m + 1 < 2 ^ 53" by simp
  have dz: "is_double z"
  proof -
    from dy' y0 lt have "y' < pow2 1024" by (simp add: is_double_def)
    with zy' have "z < pow2 1024" by simp
    moreover have "0 \<le> z" using yz y0 by simp
    ultimately show ?thesis
      unfolding is_double_def using m1 g z_def by (intro conjI exI [where x = "m + 1"] exI [where x = g]) simp_all
  qed
  have "z = y'"
  proof (rule ccontr)
    assume "z \<noteq> y'"
    with zy' have "z < y'" by simp
    with yz d have "\<bar>z - q\<bar> < \<bar>y - q\<bar>" by linarith
    with miny [OF dz] show False by simp
  qed
  then have "(of_nat (m + 1) :: rat) * pow2 g = of_nat m' * pow2 g'" by (simp add: z_def ym')
  from canonical_parity [OF this em em' m' c g'] show False .
qed

lemma nearest_double_unique:
  assumes a: "nearest_double q y" and b: "nearest_double q y'"
  shows "y = y'"
proof -
  have main: False if a: "nearest_double q u" and b: "nearest_double q v" and lt: "u < v" for u v
  proof -
    from a have du: "is_double u" and minu: "\<And>z. is_double z \<Longrightarrow> \<bar>u - q\<bar> \<le> \<bar>z - q\<bar>"
      unfolding nearest_double_def by blast+
    from b have dv: "is_double v" and minv: "\<And>z. is_double z \<Longrightarrow> \<bar>v - q\<bar> \<le> \<bar>z - q\<bar>"
      unfolding nearest_double_def by blast+
    from minu [OF dv] minv [OF du] have d: "\<bar>u - q\<bar> = \<bar>v - q\<bar>" by simp
    consider "0 \<le> u" | "v \<le> 0" | "u < 0" "0 < v" by linarith
    then show False
    proof cases
      case 1
      from nearest_double_unique_pos [OF a b 1 lt] show False .
    next
      case 2
      then have "0 \<le> - v" and "- v < - u" using lt by simp_all
      from nearest_double_unique_pos [OF nearest_double_minus [OF b] nearest_double_minus [OF a] this]
      show False .
    next
      case 3
      have z: "is_double 0" using nearest_double_zero by (simp add: nearest_double_def)
      from 3 d have "\<bar>0 - q\<bar> < \<bar>u - q\<bar>" by linarith
      with minu [OF z] show False by simp
    qed
  qed
  show ?thesis
  proof (rule ccontr)
    assume "y \<noteq> y'"
    then consider "y < y'" | "y' < y" by linarith
    then show False
    proof cases
      case 1 from main [OF a b 1] show False .
    next
      case 2 from main [OF b a 2] show False .
    qed
  qed
qed

lemma correctly_rounded_unique:
  assumes "correctly_rounded q n" and "correctly_rounded q n'"
  shows "n = n'"
  using assms nearest_double_unique [of q]
  by (cases n; cases n'; fastforce simp: correctly_rounded_def)

lemma div100_unique:
  assumes "\<bar>x\<bar> < pow2 1024" and "correctly_rounded (x / 100) n"
  shows "n = div100 (Fin x)"
  using correctly_rounded_unique [OF assms(2) div100_correct [OF assms(1)]] .

lemma floor_not_rounded: "\<not> correctly_rounded (1999 / 100) (Fin 19)"
proof
  assume "correctly_rounded (1999 / 100) (Fin 19)"
  then have n: "\<And>z. is_double z \<Longrightarrow> \<bar>19 - 1999 / 100\<bar> \<le> \<bar>z - 1999 / (100 :: rat)\<bar>"
    by (simp add: correctly_rounded_def nearest_double_def)
  have "is_double 20"
    unfolding is_double_def
    by (intro conjI exI [where x = 20] exI [where x = 0]) (simp_all add: pow2_def)
  from n [OF this] show False by simp
qed

text \<open>The double nearest to 19.99.\<close>

lemma quotient_of_1999: "quotient_of (1999 / 100) = (1999, 100)"
  by code_simp

lemma floor_1999: "\<lfloor>(140667119611150336 :: rat) / 25\<rfloor> = 5626684784446013"
  by (rule floor_unique) simp_all

lemma div100_1999: "div100 (Fin 1999) = Fin (5626684784446013 / 281474976710656)"
  by (simp add: to_double_def round_double_pos_def ilog2_def quotient_of_1999 pow2_def
      round_half_even_def bitlen.simps Let_def floor_1999)

text \<open>
  Claim C7. The LemonSqueezy amount is \<open>data.attributes.total\<close> divided by 100. For every
  total that is a finite double \<open>x\<close> the amount is the exact quotient \<open>x / 100\<close> rounded
  to the nearest double (ties to even), and it is the only number that is: a total of
  2500 gives 25, a total of 1999 gives the double nearest to 19.99 (not 19), a total of
  \<open>100 * k\<close> below \<open>100 * 2^53\<close> gives exactly \<open>k\<close>. A total that is not-a-number, an
  infinity or negative zero gives itself, an absent or null total gives 0, and whenever
  an order is extracted its amount is the total, converted to a number, divided by 100.
  The NOWPayments amount is \<open>price_amount\<close> as it is: 25 gives 25.
\<close>

theorem amount_normalization:
  "(attribute evt ''total'' = Num n \<longrightarrow>
      (\<exists>ord. lemon_order co evt = Inr ord \<and> amount ord = Num (div100 n)))
 \<and> (attribute evt ''total'' = Num (Fin 2500) \<longrightarrow>
      (\<exists>ord. lemon_order co evt = Inr ord \<and> amount ord = Num (Fin 25)))
 \<and> (attribute evt ''total'' = Num (Fin (of_nat (100 * k))) \<and> k < 2 ^ 53 \<longrightarrow>
      (\<exists>ord. lemon_order co evt = Inr ord \<and> amount ord = Num (Fin (of_nat k))))
 \<and> (attribute evt ''total'' = Undefined \<longrightarrow>
      (\<exists>ord. lemon_order co evt = Inr ord \<and> amount ord = Num (Fin 0)))
 \<and> (lemon_order co evt = Inr ord \<longrightarrow>
      (\<exists>n. ToNumber co (nullish (attribute evt ''total'') (Num (Fin 0))) = Inr n
         \<and> amount ord = Num (div100 n)))
 \<and> amount (nowpayments_order pay) = get pay ''price_amount''
 \<and> (get pay ''price_amount'' = Num (Fin 25) \<longrightarrow> amount (nowpayments_order pay) = Num (Fin 25))
 \<and> (attribute evt ''total'' = Num (Fin x) \<and> \<bar>x\<bar> < pow2 1024 \<longrightarrow>
      (\<exists>ord y. lemon_order co evt = Inr ord \<and> amount ord = Num y
         \<and> correctly_rounded (x / 100) y))
 \<and> (attribute evt ''total'' = Num (Fin 1999) \<longrightarrow>
      (\<exists>ord. lemon_order co evt = Inr ord
         \<and> amount ord = Num (Fin (5626684784446013 / 281474976710656))))
 \<and> (attribute evt ''total'' \<in> {Num NaN, Num PosInf, Num NegInf, Num NegZero} \<longrightarrow>
      (\<exists>ord. lemon_order co evt = Inr ord \<and> amount ord = attribute evt ''total''))
 \<and> (attribute evt ''total'' = Null \<longrightarrow>
      (\<exists>ord. lemon_order co evt = Inr ord \<and> amount ord = Num (Fin 0)))
 \<and> (\<bar>x\<bar> < pow2 1024 \<longrightarrow> correctly_rounded (x / 100) (div100 (Fin x)))
 \<and> (attribute evt ''total'' = Num (Fin x) \<and> \<bar>x\<bar> < pow2 1024 \<and> lemon_order co evt = Inr ord \<longrightarrow>
      (\<forall>y. correctly_rounded (x / 100) y \<longleftrightarrow> amount ord = Num y))
 \<and> \<not> correctly_rounded (1999 / 100) (Fin 19)
 \<and> div100 NaN = NaN \<and> div100 PosInf = PosInf \<and> div100 NegInf = NegInf
 \<and> div100 NegZero = NegZero"
proof (intro conjI impI)
  assume "attribute evt ''total'' = Num n"
  then have "ToNumber co (nullish (attribute evt ''total'') (Num (Fin 0))) = Inr n"
    by (simp add: nullish_def)
  from lemon_order_present [OF this]
  show "\<exists>ord. lemon_order co evt = Inr ord \<and> amount ord = Num (div100 n)" by simp
next
  assume "attribute evt ''total'' = Num (Fin 2500)"
  then have "ToNumber co (nullish (attribute evt ''total'') (Num (Fin 0))) = Inr (Fin 2500)"
    by (simp add: nullish_def)
  from lemon_order_present [OF this]
  show "\<exists>ord. lemon_order co evt = Inr ord \<and> amount ord = Num (Fin 25)"
    by (simp add: div100_2500 del: div100.simps)
next
  assume "attribute evt ''total'' = Num (Fin (of_nat (100 * k))) \<and> k < 2 ^ 53"
  then have "ToNumber co (nullish (attribute evt ''total'') (Num (Fin 0)))
      = Inr (Fin (of_nat (100 * k)))" and k: "k < 2 ^ 53"
    by (simp_all add: nullish_def)
  from lemon_order_present [OF this(1)]
  show "\<exists>ord. lemon_order co evt = Inr ord \<and> amount ord = Num (Fin (of_nat k))"
    by (simp add: div100_whole [OF k] del: div100.simps of_nat_mult)
next
  assume "attribute evt ''total'' = Undefined"
  then have "ToNumber co (nullish (attribute evt ''total'') (Num (Fin 0))) = Inr (Fin 0)"
    by (simp add: nullish_def)
  from lemon_order_present [OF this]
  show "\<exists>ord. lemon_order co evt = Inr ord \<and> amount ord = Num (Fin 0)"
    by (simp add: div100_zero del: div100.simps)
next
  assume "lemon_order co evt = Inr ord"
  then show "\<exists>n. ToNumber co (nullish (attribute evt ''total'') (Num (Fin 0))) = Inr n
         \<and> amount ord = Num (div100 n)"
    by (auto simp: lemon_order_paths split: sum.splits)
next
  show "amount (nowpayments_order pay) = get pay ''price_amount''"
    by (simp add: nowpayments_order_def)
  then show "amount (nowpayments_order pay) = Num (Fin 25)"
    if "get pay ''price_amount'' = Num (Fin 25)"
    using that by simp
next
  assume "attribute evt ''total'' = Num (Fin x) \<and> \<bar>x\<bar> < pow2 1024"
  then have "ToNumber co (nullish (attribute evt ''total'') (Num (Fin 0))) = Inr (Fin x)"
    and x: "\<bar>x\<bar> < pow2 1024"
    by (simp_all add: nullish_def)
  from lemon_order_present [OF this(1)] div100_correct [OF x]
  show "\<exists>ord y. lemon_order co evt = Inr ord \<and> amount ord = Num y
         \<and> correctly_rounded (x / 100) y"
    by (simp del: div100.simps)
next
  assume "attribute evt ''total'' = Num (Fin 1999)"
  then have "ToNumber co (nullish (attribute evt ''total'') (Num (Fin 0))) = Inr (Fin 1999)"
    by (simp add: nullish_def)
  from lemon_order_present [OF this]
  show "\<exists>ord. lemon_order co evt = Inr ord
         \<and> amount ord = Num (Fin (5626684784446013 / 281474976710656))"
    by (simp add: div100_1999 del: div100.simps)
next
  assume "attribute evt ''total'' \<in> {Num NaN, Num PosInf, Num NegInf, Num NegZero}"
  then obtain m where t: "attribute evt ''total'' = Num m" and m: "div100 m = m"
    by auto
  from t have "ToNumber co (nullish (attribute evt ''total'') (Num (Fin 0))) = Inr m"
    by (simp add: nullish_def)
  from lemon_order_present [OF this] t m
  show "\<exists>ord. lemon_order co evt = Inr ord \<and> amount ord = attribute evt ''total''"
    by simp
next
  assume "attribute evt ''total'' = Null"
  then have "ToNumber co (nullish (attribute evt ''total'') (Num (Fin 0))) = Inr (Fin 0)"
    by (simp add: nullish_def)
  from lemon_order_present [OF this]
  show "\<exists>ord. lemon_order co evt = Inr ord \<and> amount ord = Num (Fin 0)"
    by (simp add: div100_zero del: div100.simps)
next
  assume "\<bar>x\<bar> < pow2 1024"
  then show "correctly_rounded (x / 100) (div100 (Fin x))"
    by (rule div100_correct)
next
  assume "attribute evt ''total'' = Num (Fin x) \<and> \<bar>x\<bar> < pow2 1024 \<and> lemon_order co evt = Inr ord"
  then have "ToNumber co (nullish (attribute evt ''total'') (Num (Fin 0))) = Inr (Fin x)"
    and x: "\<bar>x\<bar> < pow2 1024" and o: "lemon_order co evt = Inr ord"
    by (simp_all add: nullish_def)
  from lemon_order_present [OF this(1)] o have am: "amount ord = Num (div100 (Fin x))"
    by (auto simp del: div100.simps)
  show "\<forall>y. correctly_rounded (x / 100) y \<longleftrightarrow> amount ord = Num y"
  proof (intro allI iffI)
    fix y assume "correctly_rounded (x / 100) y"
    from div100_unique [OF x this] show "amount ord = Num y" by (simp only: am)
  next
    fix y assume "amount ord = Num y"
    with am have "y = div100 (Fin x)" by simp
    with div100_correct [OF x] show "correctly_rounded (x / 100) y" by (simp only:)
  qed
next
  show "\<not> correctly_rounded (1999 / 100) (Fin 19)" by (rule floor_not_rounded)
qed simp_all

lemma created_total: "attribute created_event ''total'' = Num (Fin 2500)"
  by (simp add: attribute_def created_event_def lit_def)

lemma finished_price: "get finished_event ''price_amount'' = Num (Fin 25)"
  by (simp add: finished_event_def lit_def)

lemma fractional_total: "attribute fractional_event ''total'' = Num (Fin 1999)"
  by (simp add: attribute_def fractional_event_def lit_def)

lemma null_total: "attribute null_total_event ''total'' = Null"
  by (simp add: attribute_def null_total_event_def lit_def)

lemma infinite_total: "attribute infinite_total_event ''total'' = Num PosInf"
  by (simp add: attribute_def infinite_total_event_def lit_def)

lemma double_1999: "\<bar>1999 :: rat\<bar> < pow2 1024"
  by (simp add: pow2_def)

lemma fractional_order:
  "lemon_order sample_coerce fractional_event =
     Inr \<lparr>buyerEmail = Null, websiteType = Str (lit ''unknown''),
          amount = Num (Fin (5626684784446013 / 281474976710656)),
          currency = Str (lit ''USD''), raw = fractional_event\<rparr>"
  by (simp add: lemon_order_def Let_def nullish_def div100_1999 or_else_def fractional_event_def
      lit_def del: div100.simps)

text \<open>
  The sample events: a total of 2500, no total, a total of 1999, a null total, an infinite
  total, a price amount of 25.
\<close>

theorem amount_normalization_witness:
  "attribute created_event ''total'' = Num (Fin 2500)
 \<and> (\<exists>ord. lemon_order sample_coerce created_event = Inr ord \<and> amount ord = Num (Fin 25))
 \<and> attribute (Obj []) ''total'' = Undefined
 \<and> (\<exists>ord. lemon_order sample_coerce (Obj []) = Inr ord \<and> amount ord = Num (Fin 0))
 \<and> get finished_event ''price_amount'' = Num (Fin 25)
 \<and> amount (nowpayments_order finished_event) = Num (Fin 25)
 \<and> (\<exists>n. ToNumber sample_coerce (nullish (attribute created_event ''total'') (Num (Fin 0))) = Inr n
        \<and> Num (Fin 25) = Num (div100 n))
 \<and> attribute created_event ''total'' = Num (Fin (of_nat (100 * 25))) \<and> (25 :: nat) < 2 ^ 53
 \<and> attribute fractional_event ''total'' = Num (Fin 1999) \<and> \<bar>1999 :: rat\<bar> < pow2 1024
 \<and> (\<exists>ord. lemon_order sample_coerce fractional_event = Inr ord
        \<and> amount ord = Num (Fin (5626684784446013 / 281474976710656)))
 \<and> (\<exists>ord y. lemon_order sample_coerce fractional_event = Inr ord \<and> amount ord = Num y
        \<and> correctly_rounded (1999 / 100) y)
 \<and> correctly_rounded (1999 / 100) (div100 (Fin 1999))
 \<and> (\<forall>y. correctly_rounded (1999 / 100) y
        \<longleftrightarrow> y = Fin (5626684784446013 / 281474976710656))
 \<and> attribute null_total_event ''total'' = Null
 \<and> (\<exists>ord. lemon_order sample_coerce null_total_event = Inr ord \<and> amount ord = Num (Fin 0))
 \<and> attribute infinite_total_event ''total'' = Num PosInf
 \<and> (\<exists>ord. lemon_order sample_coerce infinite_total_event = Inr ord
        \<and> amount ord = Num PosInf)"
proof -
  let ?o = "\<lparr>buyerEmail = Null, websiteType = Str (lit ''unknown''), amount = Num (Fin 25),
          currency = Str (lit ''USD''), raw = created_event\<rparr>"
  note a = amount_normalization [where evt = created_event and co = sample_coerce
      and pay = finished_event and n = "Fin 2500" and ord = ?o and k = 25]
  note b = amount_normalization [where evt = "Obj []" and co = sample_coerce]
  let ?f = "\<lparr>buyerEmail = Null, websiteType = Str (lit ''unknown''),
          amount = Num (Fin (5626684784446013 / 281474976710656)),
          currency = Str (lit ''USD''), raw = fractional_event\<rparr>"
  note c = amount_normalization [where evt = fractional_event and co = sample_coerce
      and x = 1999 and ord = ?f]
  from a created_total finished_price
  have "\<exists>ord. lemon_order sample_coerce created_event = Inr ord \<and> amount ord = Num (Fin 25)"
    and "amount (nowpayments_order finished_event) = Num (Fin 25)"
    by simp_all
  moreover from a created_order
  have "\<exists>n. ToNumber sample_coerce (nullish (attribute created_event ''total'') (Num (Fin 0))) = Inr n
        \<and> Num (Fin 25) = Num (div100 n)"
    by simp
  moreover from b empty_event_absent(1)
  have "\<exists>ord. lemon_order sample_coerce (Obj []) = Inr ord \<and> amount ord = Num (Fin 0)"
    by simp
  moreover from c fractional_total
  have "\<exists>ord. lemon_order sample_coerce fractional_event = Inr ord
        \<and> amount ord = Num (Fin (5626684784446013 / 281474976710656))"
    by simp
  moreover from c fractional_total double_1999
  have "\<exists>ord y. lemon_order sample_coerce fractional_event = Inr ord \<and> amount ord = Num y
        \<and> correctly_rounded (1999 / 100) y"
    by simp
  moreover from c double_1999
  have "correctly_rounded (1999 / 100) (div100 (Fin 1999))"
    by (simp del: div100.simps)
  moreover from c fractional_total double_1999 fractional_order
  have "\<forall>y. correctly_rounded (1999 / 100) y
        \<longleftrightarrow> y = Fin (5626684784446013 / 281474976710656)"
    by (auto simp del: div100.simps)
  moreover from amount_normalization [where evt = null_total_event and co = sample_coerce]
    null_total
  have "\<exists>ord. lemon_order sample_coerce null_total_event = Inr ord \<and> amount ord = Num (Fin 0)"
    by simp
  moreover from amount_normalization [where evt = infinite_total_event and co = sample_coerce]
    infinite_total
  have "\<exists>ord. lemon_order sample_coerce infinite_total_event = Inr ord
        \<and> amount ord = Num PosInf"
    by simp
  ultimately show ?thesis
    using created_total finished_price empty_event_absent(1) fractional_total double_1999
      null_total infinite_total
    by simp
qed











end
